theory Spec2Isabelle
  imports Complex_Main "HOL-Library.AList"
begin

section \<open>JavaScript values\<close>

text \<open>
  The services keep every collection as one JSON document under one storage key, read it
  with \<^verbatim>\<open>JSON.parse\<close>, repair it with \<^verbatim>\<open>sanitizeStorageData\<close> and write it back with
  \<^verbatim>\<open>JSON.stringify\<close>. Nothing in that path is typed at run time, so the values are
  modelled as JavaScript has them: untyped trees.

  A valid time value of a \<^verbatim>\<open>Date\<close> is represented by its UTC calendar fields, which
  determine it; \<open>JDate None\<close> is the Invalid Date.
\<close>

datatype utc =
  UTC (utc_year: int) (utc_month: nat) (utc_day: nat) (utc_hour: nat) (utc_minute: nat)
      (utc_second: nat) (utc_ms: nat)

datatype jsval =
    JUndefined
  | JNull
  | JBool bool
  | JNum rat
  | JStr string
  | JDate "utc option"
  | JArr "jsval list"
  | JObj "(string \<times> jsval) list"

datatype error =
    TypeError
  | SyntaxError
  | ChatNotFound jsval
  | TaskNotFound jsval
  | InvalidProfileData
  | InvalidImportFormat

text \<open>Truthiness (\<^verbatim>\<open>!x\<close>, \<^verbatim>\<open>x && ...\<close>, \<^verbatim>\<open>x || ...\<close>).\<close>

fun truthy :: "jsval \<Rightarrow> bool" where
  "truthy JUndefined = False"
| "truthy JNull = False"
| "truthy (JBool b) = b"
| "truthy (JNum r) = (r \<noteq> 0)"
| "truthy (JStr s) = (s \<noteq> [])"
| "truthy (JDate d) = True"
| "truthy (JArr xs) = True"
| "truthy (JObj fs) = True"

fun nullish :: "jsval \<Rightarrow> bool" where
  "nullish JUndefined = True"
| "nullish JNull = True"
| "nullish v = False"

text \<open>The \<^verbatim>\<open>typeof\<close> tests the validators make.\<close>

fun is_string :: "jsval \<Rightarrow> bool" where
  "is_string (JStr s) = True"
| "is_string v = False"

fun is_boolean :: "jsval \<Rightarrow> bool" where
  "is_boolean (JBool b) = True"
| "is_boolean v = False"

fun is_date :: "jsval \<Rightarrow> bool" where
  "is_date (JDate d) = True"
| "is_date v = False"

fun is_array :: "jsval \<Rightarrow> bool" where
  "is_array (JArr xs) = True"
| "is_array v = False"

text \<open>\<^verbatim>\<open>typeof x === 'object' && x !== null\<close>: objects, arrays and dates.\<close>

fun is_object :: "jsval \<Rightarrow> bool" where
  "is_object (JObj fs) = True"
| "is_object (JArr xs) = True"
| "is_object (JDate d) = True"
| "is_object v = False"

text \<open>
  Reading a property \<^verbatim>\<open>x.name\<close>. On \<^verbatim>\<open>null\<close> and \<^verbatim>\<open>undefined\<close> JavaScript throws
  a TypeError; the callers below test \<open>nullish\<close> first wherever the source reads a
  property of a value it has not checked. The property names this program reads
  (\<^verbatim>\<open>id\<close>, \<^verbatim>\<open>timestamp\<close>, \<^verbatim>\<open>messages\<close>, ...) are no properties of arrays, dates,
  strings, numbers or booleans, where the read gives \<^verbatim>\<open>undefined\<close>.
\<close>

fun get_prop :: "jsval \<Rightarrow> string \<Rightarrow> jsval" where
  "get_prop (JObj fs) k = (case map_of fs k of None \<Rightarrow> JUndefined | Some v \<Rightarrow> v)"
| "get_prop v k = JUndefined"

text \<open>Assigning a property \<^verbatim>\<open>x.name = v\<close> of an object: replaced in place, or added last.\<close>

fun set_prop :: "jsval \<Rightarrow> string \<Rightarrow> jsval \<Rightarrow> jsval" where
  "set_prop (JObj fs) k v = JObj (AList.update k v fs)"
| "set_prop x k v = x"

text \<open>
  \<^verbatim>\<open>a === b\<close>. Primitives are compared by value; two objects are equal only when they
  are the same allocation, and the operands this program compares never are (one side
  comes from a fresh \<^verbatim>\<open>JSON.parse\<close>).
\<close>

fun strict_eq :: "jsval \<Rightarrow> jsval \<Rightarrow> bool" where
  "strict_eq JUndefined b = (b = JUndefined)"
| "strict_eq JNull b = (b = JNull)"
| "strict_eq (JBool x) b = (b = JBool x)"
| "strict_eq (JNum x) b = (b = JNum x)"
| "strict_eq (JStr x) b = (b = JStr x)"
| "strict_eq (JDate d) b = False"
| "strict_eq (JArr xs) b = False"
| "strict_eq (JObj fs) b = False"

text \<open>Object spread \<^verbatim>\<open>{...a, ...b}\<close>: the own properties of \<open>b\<close> written over those of \<open>a\<close>.\<close>

fun own_props :: "jsval \<Rightarrow> (string \<times> jsval) list" where
  "own_props (JObj fs) = fs"
| "own_props v = []"

definition spread :: "(string \<times> jsval) list \<Rightarrow> (string \<times> jsval) list \<Rightarrow> (string \<times> jsval) list" where
  "spread a b = fold (\<lambda>(k, v). AList.update k v) b a"

section \<open>Dates and their ISO text\<close>

definition leap_year :: "int \<Rightarrow> bool" where
  "leap_year y = (y mod 4 = 0 \<and> (y mod 100 \<noteq> 0 \<or> y mod 400 = 0))"

definition days_in_month :: "int \<Rightarrow> nat \<Rightarrow> nat" where
  "days_in_month y m =
     (if m = 2 then (if leap_year y then 29 else 28)
      else if m = 4 \<or> m = 6 \<or> m = 9 \<or> m = 11 then 30 else 31)"

text \<open>
  The calendar fields of a time value. ECMAScript bounds time values by 100 000 000 days
  either side of 1970; the bound is kept here to the year.
\<close>

definition valid_utc :: "utc \<Rightarrow> bool" where
  "valid_utc u =
     (- 271821 \<le> utc_year u \<and> utc_year u \<le> 275760 \<and> 1 \<le> utc_month u \<and> utc_month u \<le> 12 \<and>
      1 \<le> utc_day u \<and> utc_day u \<le> days_in_month (utc_year u) (utc_month u) \<and>
      utc_hour u < 24 \<and> utc_minute u < 60 \<and> utc_second u < 60 \<and> utc_ms u < 1000)"

definition digit_char :: "nat \<Rightarrow> char" where
  "digit_char n = char_of (48 + n mod 10)"

definition digit_val :: "char \<Rightarrow> nat option" where
  "digit_val c =
     (let n = (of_char c :: nat) in if 48 \<le> n \<and> n \<le> 57 then Some (n - 48) else None)"

fun pad :: "nat \<Rightarrow> nat \<Rightarrow> string" where
  "pad 0 n = []"
| "pad (Suc k) n = pad k (n div 10) @ [digit_char n]"

fun number_from :: "nat \<Rightarrow> string \<Rightarrow> nat option" where
  "number_from acc [] = Some acc"
| "number_from acc (c # cs) =
     (case digit_val c of None \<Rightarrow> None | Some d \<Rightarrow> number_from (10 * acc + d) cs)"

definition year_text :: "int \<Rightarrow> string" where
  "year_text y =
     (if 0 \<le> y \<and> y \<le> 9999 then pad 4 (nat y)
      else (if y < 0 then ''-'' else ''+'') @ pad 6 (nat \<bar>y\<bar>))"

text \<open>\<^verbatim>\<open>Date.prototype.toISOString\<close>: \<^verbatim>\<open>YYYY-MM-DDTHH:mm:ss.sssZ\<close>, the year widened
  to a sign and six digits outside 0..9999.\<close>

definition toISOString :: "utc \<Rightarrow> string" where
  "toISOString u =
     year_text (utc_year u) @ ''-'' @ pad 2 (utc_month u) @ ''-'' @ pad 2 (utc_day u) @ ''T'' @
     pad 2 (utc_hour u) @ '':'' @ pad 2 (utc_minute u) @ '':'' @ pad 2 (utc_second u) @ ''.'' @ pad 3 (utc_ms u) @ ''Z''"

definition parse_fields :: "int \<Rightarrow> string \<Rightarrow> utc option" where
  "parse_fields y s =
     (if length s = 20 \<and> s ! 0 = CHR ''-'' \<and> s ! 3 = CHR ''-'' \<and> s ! 6 = CHR ''T'' \<and>
         s ! 9 = CHR '':'' \<and> s ! 12 = CHR '':'' \<and> s ! 15 = CHR ''.'' \<and> s ! 19 = CHR ''Z''
      then
        (case (number_from 0 (take 2 (drop 1 s)), number_from 0 (take 2 (drop 4 s)),
               number_from 0 (take 2 (drop 7 s)), number_from 0 (take 2 (drop 10 s)),
               number_from 0 (take 2 (drop 13 s)), number_from 0 (take 3 (drop 16 s))) of
           (Some mo, Some d, Some h, Some m, Some sec, Some msec) \<Rightarrow>
              (let u = UTC y mo d h m sec msec in if valid_utc u then Some u else None)
         | _ \<Rightarrow> None)
      else None)"

text \<open>
  \<^verbatim>\<open>new Date(text)\<close>. ECMAScript fixes the result for the format \<^verbatim>\<open>toISOString\<close>
  writes and leaves other formats to the implementation; only the former is
  recognised here, every other text giving the Invalid Date.
\<close>

definition Date_parse :: "string \<Rightarrow> utc option" where
  "Date_parse s =
     (if length s = 24 then
        (case number_from 0 (take 4 s) of
           None \<Rightarrow> None
         | Some y \<Rightarrow> parse_fields (int y) (drop 4 s))
      else if length s = 27 \<and> (hd s = CHR ''+'' \<or> hd s = CHR ''-'') then
        (case number_from 0 (take 6 (drop 1 s)) of
           None \<Rightarrow> None
         | Some y \<Rightarrow>
             if hd s = CHR ''-'' then (if y = 0 then None else parse_fields (- int y) (drop 7 s))
             else parse_fields (int y) (drop 7 s))
      else None)"

section \<open>JSON and the storage manager\<close>

text \<open>
  \<open>json v\<close> is \<^verbatim>\<open>JSON.parse(JSON.stringify(v))\<close>: what is read back after \<open>v\<close> was
  written. A date is written as its ISO text, the Invalid Date as \<^verbatim>\<open>null\<close>; a property
  whose value is \<^verbatim>\<open>undefined\<close> is left out and an \<^verbatim>\<open>undefined\<close> array element is written
  as \<^verbatim>\<open>null\<close>.
\<close>

fun json :: "jsval \<Rightarrow> jsval" where
  "json JUndefined = JNull"
| "json JNull = JNull"
| "json (JBool b) = JBool b"
| "json (JNum r) = JNum r"
| "json (JStr s) = JStr s"
| "json (JDate None) = JNull"
| "json (JDate (Some t)) = JStr (toISOString t)"
| "json (JArr xs) = JArr (map json xs)"
| "json (JObj fs) =
     JObj (map (\<lambda>(k, v). (k, json v)) (filter (\<lambda>(k, v). v \<noteq> JUndefined) fs))"

text \<open>
  The store maps a key to the value \<^verbatim>\<open>JSON.parse\<close> gives for the text kept under it.
  \<^verbatim>\<open>getItem\<close> answers \<^verbatim>\<open>null\<close> for a missing key. AsyncStorage itself is taken to
  work: its own faults are not modelled.
\<close>

type_synonym storage = "string \<Rightarrow> jsval option"

definition CHATS :: string where "CHATS = ''@chats''"
definition TASKS :: string where "TASKS = ''@tasks''"
definition USER_PROFILE :: string where "USER_PROFILE = ''@userProfile''"
definition APP_SETTINGS :: string where "APP_SETTINGS = ''@appSettings''"

definition getItem :: "storage \<Rightarrow> string \<Rightarrow> jsval" where
  "getItem s k = (case s k of None \<Rightarrow> JNull | Some v \<Rightarrow> v)"

definition setItem :: "string \<Rightarrow> jsval \<Rightarrow> storage \<Rightarrow> storage" where
  "setItem k v s = s(k \<mapsto> json v)"

definition removeItem :: "string \<Rightarrow> storage \<Rightarrow> storage" where
  "removeItem k s = s(k := None)"

section \<open>Validation and sanitization\<close>

definition validateMessage :: "jsval \<Rightarrow> bool" where
  "validateMessage message =
     (is_object message \<and>
      is_string (get_prop message ''id'') \<and>
      is_string (get_prop message ''text'') \<and>
      is_boolean (get_prop message ''isUser'') \<and>
      is_date (get_prop message ''timestamp'') \<and>
      is_string (get_prop message ''chatId''))"

definition validateChat :: "jsval \<Rightarrow> bool" where
  "validateChat chat =
     (is_object chat \<and>
      is_string (get_prop chat ''id'') \<and>
      is_string (get_prop chat ''title'') \<and>
      is_string (get_prop chat ''lastMessage'') \<and>
      is_date (get_prop chat ''lastMessageTime'') \<and>
      (case get_prop chat ''messages'' of
         JArr msgs \<Rightarrow> list_all validateMessage msgs
       | _ \<Rightarrow> False))"

definition validateTask :: "jsval \<Rightarrow> bool" where
  "validateTask task =
     (is_object task \<and>
      is_string (get_prop task ''id'') \<and>
      is_string (get_prop task ''title'') \<and>
      (get_prop task ''description'' = JUndefined \<or> is_string (get_prop task ''description'')) \<and>
      is_boolean (get_prop task ''completed'') \<and>
      is_date (get_prop task ''createdAt'') \<and>
      (get_prop task ''fromChatId'' = JUndefined \<or> is_string (get_prop task ''fromChatId'')))"

definition validateUserProfile :: "jsval \<Rightarrow> bool" where
  "validateUserProfile profile =
     (is_object profile \<and>
      (get_prop profile ''name'' = JUndefined \<or> is_string (get_prop profile ''name'')) \<and>
      (get_prop profile ''avatar'' = JUndefined \<or> is_string (get_prop profile ''avatar'')) \<and>
      is_object (get_prop profile ''preferences'') \<and>
      get_prop (get_prop profile ''preferences'') ''theme'' \<in> set [JStr ''light'', JStr ''dark'', JStr ''auto''] \<and>
      is_boolean (get_prop (get_prop profile ''preferences'') ''notifications'') \<and>
      is_string (get_prop (get_prop profile ''preferences'') ''aiModel''))"

text \<open>
  \<^verbatim>\<open>if (x.f && typeof x.f === 'string') x.f = new Date(x.f)\<close>, for an \<open>x\<close> that is
  not \<^verbatim>\<open>null\<close>.
\<close>

definition reviveDate :: "string \<Rightarrow> jsval \<Rightarrow> jsval" where
  "reviveDate f x =
     (case get_prop x f of
        JStr s \<Rightarrow> if s \<noteq> [] then set_prop x f (JDate (Date_parse s)) else x
      | _ \<Rightarrow> x)"

text \<open>The body of the \<^verbatim>\<open>map\<close> callback of \<^verbatim>\<open>sanitizeStorageData\<close>. Reading
  \<^verbatim>\<open>item.timestamp\<close> of a \<^verbatim>\<open>null\<close> item, or \<^verbatim>\<open>msg.timestamp\<close> of a \<^verbatim>\<open>null\<close> message,
  throws.\<close>

definition sanitizeItem :: "jsval \<Rightarrow> error + jsval" where
  "sanitizeItem item =
     (if nullish item then Inl TypeError
      else
        (let item1 = reviveDate ''timestamp'' item;
             item2 = reviveDate ''lastMessageTime'' item1;
             item3 = reviveDate ''createdAt'' item2
         in case get_prop item3 ''messages'' of
              JArr msgs \<Rightarrow>
                if list_ex nullish msgs then Inl TypeError
                else Inr (set_prop item3 ''messages'' (JArr (map (reviveDate ''timestamp'') msgs)))
            | _ \<Rightarrow> Inr item3))"

fun sanitizeItems :: "jsval list \<Rightarrow> error + jsval list" where
  "sanitizeItems [] = Inr []"
| "sanitizeItems (item # rest) =
     (case sanitizeItem item of
        Inl e \<Rightarrow> Inl e
      | Inr item' \<Rightarrow> (case sanitizeItems rest of Inl e \<Rightarrow> Inl e | Inr rest' \<Rightarrow> Inr (item' # rest')))"

definition sanitizeStorageData :: "jsval \<Rightarrow> (jsval \<Rightarrow> bool) \<Rightarrow> error + jsval list" where
  "sanitizeStorageData data validator =
     (case data of
        JArr items \<Rightarrow>
          (case sanitizeItems items of Inl e \<Rightarrow> Inl e | Inr items' \<Rightarrow> Inr (filter validator items'))
      | _ \<Rightarrow> Inr [])"

definition createDefaultUserProfile :: jsval where
  "createDefaultUserProfile =
     JObj [(''preferences'',
            JObj [(''theme'', JStr ''auto''),
                  (''notifications'', JBool True),
                  (''aiModel'', JStr ''gpt-3.5-turbo'')])]"

section \<open>Array helpers\<close>

text \<open>\<^verbatim>\<open>Array.prototype.findIndex\<close>, with \<open>None\<close> for \<^verbatim>\<open>-1\<close>.\<close>

fun findIndex :: "('a \<Rightarrow> bool) \<Rightarrow> 'a list \<Rightarrow> nat option" where
  "findIndex P [] = None"
| "findIndex P (x # xs) = (if P x then Some 0 else map_option Suc (findIndex P xs))"

text \<open>
  \<^verbatim>\<open>String.prototype.trim\<close> on ASCII text: tab, line feed, vertical tab, form feed,
  carriage return and space are stripped at both ends. The white space outside ASCII is
  not modelled.
\<close>

definition white_space :: "char \<Rightarrow> bool" where
  "white_space c = (c \<in> set [CHR 0x09, CHR 0x0A, CHR 0x0B, CHR 0x0C, CHR 0x0D, CHR '' ''])"

definition trim :: "string \<Rightarrow> string" where
  "trim t = rev (dropWhile white_space (rev (dropWhile white_space t)))"

section \<open>Chat service\<close>

text \<open>
  The current time (\<^verbatim>\<open>new Date()\<close>) and the identifier \<^verbatim>\<open>generateId()\<close> returns are
  inputs of the operations that use them. An operation that can throw returns
  \<open>error + result\<close>; every operation returns the store as it leaves it.
\<close>

definition getChats :: "storage \<Rightarrow> jsval list" where
  "getChats s =
     (let chatsData = getItem s CHATS in
      if \<not> truthy chatsData then []
      else (case sanitizeStorageData chatsData validateChat of
              Inl e \<Rightarrow> []
            | Inr chats \<Rightarrow> chats))"

definition getChat :: "storage \<Rightarrow> string \<Rightarrow> jsval" where
  "getChat s ident =
     (case find (\<lambda>chat. strict_eq (get_prop chat ''id'') (JStr ident)) (getChats s) of
        None \<Rightarrow> JNull
      | Some chat \<Rightarrow> if truthy chat then chat else JNull)"

definition createChat :: "utc \<Rightarrow> string \<Rightarrow> string \<Rightarrow> storage \<Rightarrow> jsval \<times> storage" where
  "createChat now newId title s =
     (let newChat = JObj [(''id'', JStr newId),
                          (''title'', JStr (if trim title \<noteq> [] then trim title else ''New Chat'')),
                          (''lastMessage'', JStr []),
                          (''lastMessageTime'', JDate (Some now)),
                          (''messages'', JArr [])];
          chats = getChats s
      in (newChat, setItem CHATS (JArr (newChat # chats)) s))"

text \<open>Reading \<^verbatim>\<open>updatedChat.id\<close> throws when the argument is \<^verbatim>\<open>null\<close>: in the
  \<^verbatim>\<open>findIndex\<close> callback, or else in the message of the not-found error.\<close>

definition updateChat :: "jsval \<Rightarrow> storage \<Rightarrow> error + storage" where
  "updateChat updatedChat s =
     (let chats = getChats s in
      if nullish updatedChat then Inl TypeError
      else (case findIndex (\<lambda>chat. strict_eq (get_prop chat ''id'') (get_prop updatedChat ''id'')) chats of
              None \<Rightarrow> Inl (ChatNotFound (get_prop updatedChat ''id''))
            | Some index \<Rightarrow> Inr (setItem CHATS (JArr (chats[index := updatedChat])) s)))"

definition deleteChat :: "string \<Rightarrow> storage \<Rightarrow> error + storage" where
  "deleteChat ident s =
     (let chats = getChats s;
          filteredChats = filter (\<lambda>chat. \<not> strict_eq (get_prop chat ''id'') (JStr ident)) chats
      in Inr (setItem CHATS (JArr filteredChats) s))"

text \<open>\<^verbatim>\<open>messageData: Omit<Message, 'id' | 'chatId'>\<close>.\<close>

record message_data =
  msg_text :: string
  msg_isUser :: bool
  msg_timestamp :: "utc option"

definition addMessage :: "string \<Rightarrow> string \<Rightarrow> message_data \<Rightarrow> storage \<Rightarrow> error + jsval \<times> storage" where
  "addMessage newId chatId messageData s =
     (let chat = getChat s chatId in
      if \<not> truthy chat then Inl (ChatNotFound (JStr chatId))
      else
        (let newMessage = JObj [(''id'', JStr newId),
                                (''chatId'', JStr chatId),
                                (''text'', JStr (msg_text messageData)),
                                (''isUser'', JBool (msg_isUser messageData)),
                                (''timestamp'', JDate (msg_timestamp messageData))]
         in case get_prop chat ''messages'' of
              JArr messages \<Rightarrow>
                (let chat1 = set_prop chat ''messages'' (JArr (messages @ [newMessage]));
                     chat2 = set_prop chat1 ''lastMessage'' (JStr (msg_text messageData));
                     chat3 = set_prop chat2 ''lastMessageTime'' (JDate (msg_timestamp messageData))
                 in case updateChat chat3 s of
                      Inl e \<Rightarrow> Inl e
                    | Inr s' \<Rightarrow> Inr (newMessage, s'))
            | _ \<Rightarrow> Inl TypeError))"

definition clearAllChats :: "storage \<Rightarrow> storage" where
  "clearAllChats s = removeItem CHATS s"

section \<open>Task service\<close>

definition getTasks :: "storage \<Rightarrow> jsval list" where
  "getTasks s =
     (let tasksData = getItem s TASKS in
      if \<not> truthy tasksData then []
      else (case sanitizeStorageData tasksData validateTask of
              Inl e \<Rightarrow> []
            | Inr tasks \<Rightarrow> tasks))"

definition getTask :: "storage \<Rightarrow> string \<Rightarrow> jsval" where
  "getTask s ident =
     (case find (\<lambda>task. strict_eq (get_prop task ''id'') (JStr ident)) (getTasks s) of
        None \<Rightarrow> JNull
      | Some task \<Rightarrow> if truthy task then task else JNull)"

text \<open>\<^verbatim>\<open>taskData: Omit<Task, 'id' | 'createdAt'>\<close>, with its optional fields.\<close>

record task_data =
  task_title :: string
  task_description :: "string option"
  task_completed :: bool
  task_fromChatId :: "string option"

definition task_props :: "task_data \<Rightarrow> (string \<times> jsval) list" where
  "task_props taskData =
     [(''title'', JStr (task_title taskData))] @
     (case task_description taskData of None \<Rightarrow> [] | Some d \<Rightarrow> [(''description'', JStr d)]) @
     [(''completed'', JBool (task_completed taskData))] @
     (case task_fromChatId taskData of None \<Rightarrow> [] | Some c \<Rightarrow> [(''fromChatId'', JStr c)])"

definition createTask :: "utc \<Rightarrow> string \<Rightarrow> task_data \<Rightarrow> storage \<Rightarrow> jsval \<times> storage" where
  "createTask now newId taskData s =
     (let newTask = JObj (spread [(''id'', JStr newId), (''createdAt'', JDate (Some now))]
                                 (task_props taskData));
          tasks = getTasks s
      in (newTask, setItem TASKS (JArr (newTask # tasks)) s))"

definition updateTask :: "jsval \<Rightarrow> storage \<Rightarrow> error + storage" where
  "updateTask updatedTask s =
     (let tasks = getTasks s in
      if nullish updatedTask then Inl TypeError
      else (case findIndex (\<lambda>task. strict_eq (get_prop task ''id'') (get_prop updatedTask ''id'')) tasks of
              None \<Rightarrow> Inl (TaskNotFound (get_prop updatedTask ''id''))
            | Some index \<Rightarrow> Inr (setItem TASKS (JArr (tasks[index := updatedTask])) s)))"

definition deleteTask :: "string \<Rightarrow> storage \<Rightarrow> error + storage" where
  "deleteTask ident s =
     (let tasks = getTasks s;
          filteredTasks = filter (\<lambda>task. \<not> strict_eq (get_prop task ''id'') (JStr ident)) tasks
      in Inr (setItem TASKS (JArr filteredTasks) s))"

definition toggleTaskCompletion :: "string \<Rightarrow> storage \<Rightarrow> error + storage" where
  "toggleTaskCompletion ident s =
     (let task = getTask s ident in
      if \<not> truthy task then Inl (TaskNotFound (JStr ident))
      else updateTask (set_prop task ''completed'' (JBool (\<not> truthy (get_prop task ''completed'')))) s)"

text \<open>
  The numbers of \<^verbatim>\<open>getTaskStats\<close> are JavaScript doubles; the counts are integers and
  the rate is computed here in exact rational arithmetic. \<^verbatim>\<open>Math.round\<close> rounds a half
  upwards.
\<close>

record task_stats =
  total :: int
  completed :: int
  pending :: int
  completionRate :: rat

definition Math_round :: "rat \<Rightarrow> int" where
  "Math_round x = \<lfloor>x + 1 / 2\<rfloor>"

definition getTaskStats :: "storage \<Rightarrow> task_stats" where
  "getTaskStats s =
     (let tasks = getTasks s;
          total = int (length tasks);
          completed = int (length (filter (\<lambda>task. truthy (get_prop task ''completed'')) tasks));
          pending = total - completed;
          completionRate = (if total > 0 then (of_int completed / of_int total) * 100 else 0)
      in \<lparr>total = total, completed = completed, pending = pending,
          completionRate = of_int (Math_round (completionRate * 100)) / 100\<rparr>)"

definition clearAllTasks :: "storage \<Rightarrow> storage" where
  "clearAllTasks s = removeItem TASKS s"

section \<open>Profile service\<close>

text \<open>
  \<^verbatim>\<open>getProfile\<close> and \<^verbatim>\<open>updateProfile\<close> call each other, so they are one function of the
  call made. The result is \<open>None\<close> when the call never returns; otherwise it is the value
  returned or the error thrown, with the store as the call leaves it.
  \<^verbatim>\<open>getProfile\<close> catches every error and answers the default profile instead.
  \<^verbatim>\<open>profileUpdates\<close> is an object by its type.
\<close>

datatype profile_call = GetProfile | UpdateProfile jsval

partial_function (option) profile_service ::
  "profile_call \<Rightarrow> storage \<Rightarrow> ((error + jsval) \<times> storage) option" where
  "profile_service call s =
     (case call of
        GetProfile \<Rightarrow>
          (let profileData = getItem s USER_PROFILE in
           if \<not> truthy profileData \<or> \<not> validateUserProfile profileData then
             Option.bind (profile_service (UpdateProfile createDefaultUserProfile) s)
               (\<lambda>(r, s'). case r of
                    Inl e \<Rightarrow> Some (Inr createDefaultUserProfile, s')
                  | Inr u \<Rightarrow> Some (Inr createDefaultUserProfile, s'))
           else Some (Inr profileData, s))
      | UpdateProfile profileUpdates \<Rightarrow>
          Option.bind (profile_service GetProfile s)
            (\<lambda>(r, s'). case r of
                 Inl e \<Rightarrow> Some (Inl e, s')
               | Inr currentProfile \<Rightarrow>
                   (let updatedProfile =
                          JObj (spread
                                  (spread (own_props currentProfile) (own_props profileUpdates))
                                  [(''preferences'',
                                    JObj (spread
                                            (own_props (get_prop currentProfile ''preferences''))
                                            (own_props
                                               (if truthy (get_prop profileUpdates ''preferences'')
                                                then get_prop profileUpdates ''preferences''
                                                else JObj []))))])
                    in if \<not> validateUserProfile updatedProfile
                       then Some (Inl InvalidProfileData, s')
                       else Some (Inr JUndefined, setItem USER_PROFILE updatedProfile s'))))"

definition getProfile :: "storage \<Rightarrow> ((error + jsval) \<times> storage) option" where
  "getProfile s = profile_service GetProfile s"

definition updateProfile :: "jsval \<Rightarrow> storage \<Rightarrow> ((error + jsval) \<times> storage) option" where
  "updateProfile profileUpdates s = profile_service (UpdateProfile profileUpdates) s"

definition resetProfile :: "storage \<Rightarrow> storage" where
  "resetProfile s = setItem USER_PROFILE createDefaultUserProfile s"

definition clearData :: "storage \<Rightarrow> storage" where
  "clearData s =
     removeItem APP_SETTINGS (removeItem USER_PROFILE (clearAllTasks (clearAllChats s)))"

text \<open>
  A JSON text is represented by what \<^verbatim>\<open>JSON.parse\<close> makes of it, \<open>None\<close> when it does
  not parse. \<^verbatim>\<open>exportData\<close> waits for \<^verbatim>\<open>getProfile\<close>, and does not return if that does
  not.
\<close>

type_synonym json_text = "jsval option"

definition exportData :: "utc \<Rightarrow> storage \<Rightarrow> ((error + json_text) \<times> storage) option" where
  "exportData now s =
     Option.bind (getProfile s)
       (\<lambda>(r, s'). case r of
            Inl e \<Rightarrow> Some (Inl e, s')
          | Inr profile \<Rightarrow>
              (let exportData = JObj [(''exportDate'', JStr (toISOString now)),
                                      (''version'', JStr ''1.0.0''),
                                      (''data'', JObj [(''chats'', JArr (getChats s)),
                                                       (''tasks'', JArr (getTasks s)),
                                                       (''profile'', profile)])]
               in Some (Inr (Some (json exportData)), s')))"

definition importData :: "json_text \<Rightarrow> storage \<Rightarrow> error + storage" where
  "importData jsonData s =
     (case jsonData of
        None \<Rightarrow> Inl SyntaxError
      | Some importData \<Rightarrow>
          if nullish importData then Inl TypeError
          else if \<not> truthy (get_prop importData ''data'') then Inl InvalidImportFormat
          else
            (let data = get_prop importData ''data'';
                 chats = get_prop data ''chats'';
                 tasks = get_prop data ''tasks'';
                 profile = get_prop data ''profile'';
                 s1 = (if truthy chats \<and> is_array chats then setItem CHATS chats s else s);
                 s2 = (if truthy tasks \<and> is_array tasks then setItem TASKS tasks s1 else s1);
                 s3 = (if truthy profile \<and> validateUserProfile profile
                       then setItem USER_PROFILE profile s2 else s2)
             in Inr s3))"

section \<open>Notions used to state the properties\<close>

text \<open>The array kept under a collection key, and the record in it with a given identifier.\<close>

definition persisted :: "string \<Rightarrow> storage \<Rightarrow> jsval list" where
  "persisted k s = (case getItem s k of JArr xs \<Rightarrow> xs | _ \<Rightarrow> [])"

definition persisted_by_id :: "string \<Rightarrow> string \<Rightarrow> storage \<Rightarrow> jsval option" where
  "persisted_by_id k ident s = find (\<lambda>r. get_prop r ''id'' = JStr ident) (persisted k s)"

definition ids :: "jsval list \<Rightarrow> jsval list" where
  "ids xs = map (\<lambda>x. get_prop x ''id'') xs"

text \<open>A sequence of \<^verbatim>\<open>addMessage\<close> calls on one conversation, each with the identifier
  generated for its message; it stops at the first call that fails.\<close>

fun addMessages :: "string \<Rightarrow> (string \<times> message_data) list \<Rightarrow> storage \<Rightarrow> error + storage" where
  "addMessages chatId [] s = Inr s"
| "addMessages chatId (call # calls) s =
     (case addMessage (fst call) chatId (snd call) s of
        Inl e \<Rightarrow> Inl e
      | Inr (message, s') \<Rightarrow> addMessages chatId calls s')"

text \<open>
  What \<^verbatim>\<open>sanitizeStorageData\<close> does to one element: \<open>throws\<close> tells whether its callback
  throws on it, \<open>revive\<close> is the element it hands to the validator otherwise, and \<open>revived\<close>
  is what becomes of the value of a date field.
\<close>

definition revived :: "jsval \<Rightarrow> jsval" where
  "revived v = (case v of JStr s \<Rightarrow> if s \<noteq> [] then JDate (Date_parse s) else v | _ \<Rightarrow> v)"

definition date_fields :: "string set" where
  "date_fields = {''timestamp'', ''lastMessageTime'', ''createdAt''}"

definition throws :: "jsval \<Rightarrow> bool" where
  "throws x =
     (nullish x \<or>
      (case get_prop x ''messages'' of JArr msgs \<Rightarrow> list_ex nullish msgs | _ \<Rightarrow> False))"

definition revive :: "jsval \<Rightarrow> jsval" where
  "revive x = (case sanitizeItem x of Inl e \<Rightarrow> x | Inr y \<Rightarrow> y)"

text \<open>On an object whose keys are distinct, \<open>revive\<close> works entry by entry.\<close>

definition revive_value :: "string \<Rightarrow> jsval \<Rightarrow> jsval" where
  "revive_value k v =
     (if k \<in> date_fields then revived v
      else if k = ''messages'' then
        (case v of JArr msgs \<Rightarrow> JArr (map (reviveDate ''timestamp'') msgs) | _ \<Rightarrow> v)
      else v)"

definition map_values ::
  "(string \<Rightarrow> jsval \<Rightarrow> jsval) \<Rightarrow> (string \<times> jsval) list \<Rightarrow> (string \<times> jsval) list" where
  "map_values g fs = map (\<lambda>(k, v). (k, g k v)) fs"

text \<open>The part of the ISO text after the year.\<close>

definition fields_text :: "utc \<Rightarrow> string" where
  "fields_text u =
     ''-'' @ pad 2 (utc_month u) @ ''-'' @ pad 2 (utc_day u) @ ''T'' @
     pad 2 (utc_hour u) @ '':'' @ pad 2 (utc_minute u) @ '':'' @ pad 2 (utc_second u) @ ''.'' @
     pad 3 (utc_ms u) @ ''Z''"

text \<open>The values that \<^verbatim>\<open>JSON.parse\<close> can produce: what the storage holds under a key.\<close>

fun is_json :: "jsval \<Rightarrow> bool" where
  "is_json JUndefined = False"
| "is_json JNull = True"
| "is_json (JBool b) = True"
| "is_json (JNum r) = True"
| "is_json (JStr s) = True"
| "is_json (JDate d) = False"
| "is_json (JArr xs) = list_all is_json xs"
| "is_json (JObj fs) = (distinct (map fst fs) \<and> list_all (\<lambda>(k, v). is_json v) fs)"

text \<open>
  The number of messages of a conversation, and the dates the validators look at: a date
  is valid when it is a \<^verbatim>\<open>Date\<close> object holding a calendar date, not an Invalid Date.
\<close>

definition message_count :: "jsval \<Rightarrow> nat" where
  "message_count chat = (case get_prop chat ''messages'' of JArr msgs \<Rightarrow> length msgs | _ \<Rightarrow> 0)"

definition valid_date :: "jsval \<Rightarrow> bool" where
  "valid_date v = (case v of JDate (Some u) \<Rightarrow> valid_utc u | _ \<Rightarrow> False)"

definition chat_dates_valid :: "jsval \<Rightarrow> bool" where
  "chat_dates_valid chat =
     (valid_date (get_prop chat ''lastMessageTime'') \<and>
      (case get_prop chat ''messages'' of
         JArr msgs \<Rightarrow> list_all (\<lambda>m. valid_date (get_prop m ''timestamp'')) msgs
       | _ \<Rightarrow> True))"

definition task_dates_valid :: "jsval \<Rightarrow> bool" where
  "task_dates_valid task = valid_date (get_prop task ''createdAt'')"


section \<open>Example data\<close>

definition noon :: utc where
  "noon = UTC 2024 1 1 12 0 0 0"

definition midnight :: utc where
  "midnight = UTC 2024 1 1 0 0 0 0"

definition chat_a :: jsval where
  "chat_a = JObj [(''id'', JStr ''1''), (''title'', JStr ''a''), (''lastMessage'', JStr []),
                  (''lastMessageTime'', JStr ''2024-01-01T00:00:00.000Z''),
                  (''messages'', JArr [])]"

definition chat_b :: jsval where
  "chat_b = JObj [(''id'', JStr ''2''), (''title'', JStr ''b''), (''lastMessage'', JStr []),
                  (''lastMessageTime'', JStr ''2024-01-01T00:00:00.000Z''),
                  (''messages'', JArr [])]"

text \<open>The two conversations as \<^verbatim>\<open>getChats\<close> hands them out.\<close>

definition chat_a_read :: jsval where
  "chat_a_read = JObj [(''id'', JStr ''1''), (''title'', JStr ''a''), (''lastMessage'', JStr []),
                       (''lastMessageTime'', JDate (Some midnight)),
                       (''messages'', JArr [])]"

definition chat_b_read :: jsval where
  "chat_b_read = JObj [(''id'', JStr ''2''), (''title'', JStr ''b''), (''lastMessage'', JStr []),
                       (''lastMessageTime'', JDate (Some midnight)),
                       (''messages'', JArr [])]"

definition chat_b_renamed :: jsval where
  "chat_b_renamed = JObj [(''id'', JStr ''2''), (''title'', JStr ''renamed''),
                          (''lastMessage'', JStr []),
                          (''lastMessageTime'', JDate (Some noon)),
                          (''messages'', JArr [])]"

definition chat_unknown :: jsval where
  "chat_unknown = JObj [(''id'', JStr ''9''), (''title'', JStr ''z''), (''lastMessage'', JStr []),
                        (''lastMessageTime'', JDate (Some noon)),
                        (''messages'', JArr [])]"

definition store_ab :: storage where
  "store_ab = [CHATS \<mapsto> JArr [chat_a, chat_b]]"

definition task_1 :: jsval where
  "task_1 = JObj [(''id'', JStr ''t1''), (''createdAt'', JStr ''2024-01-01T00:00:00.000Z''),
                  (''title'', JStr ''Task 1''), (''completed'', JBool False)]"

definition task_2 :: jsval where
  "task_2 = JObj [(''id'', JStr ''t2''), (''createdAt'', JStr ''2024-01-01T00:00:00.000Z''),
                  (''title'', JStr ''Task 2''), (''completed'', JBool True)]"

definition task_3 :: jsval where
  "task_3 = JObj [(''id'', JStr ''t3''), (''createdAt'', JStr ''2024-01-01T00:00:00.000Z''),
                  (''title'', JStr ''Task 3''), (''completed'', JBool True)]"

definition task_1_read :: jsval where
  "task_1_read = JObj [(''id'', JStr ''t1''), (''createdAt'', JDate (Some midnight)),
                       (''title'', JStr ''Task 1''), (''completed'', JBool False)]"

definition task_2_read :: jsval where
  "task_2_read = JObj [(''id'', JStr ''t2''), (''createdAt'', JDate (Some midnight)),
                       (''title'', JStr ''Task 2''), (''completed'', JBool True)]"

definition task_3_read :: jsval where
  "task_3_read = JObj [(''id'', JStr ''t3''), (''createdAt'', JDate (Some midnight)),
                       (''title'', JStr ''Task 3''), (''completed'', JBool True)]"

definition task_2_edited :: jsval where
  "task_2_edited = JObj [(''id'', JStr ''t2''), (''createdAt'', JDate (Some noon)),
                         (''title'', JStr ''Task 2, edited''), (''completed'', JBool False)]"

definition store_tasks :: storage where
  "store_tasks = [TASKS \<mapsto> JArr [task_1, task_2, task_3]]"

text \<open>Two messages for the first conversation, and the store after each is added.\<close>

definition hello :: message_data where
  "hello = \<lparr>msg_text = ''hello'', msg_isUser = True, msg_timestamp = Some noon\<rparr>"

definition there :: message_data where
  "there = \<lparr>msg_text = ''there'', msg_isUser = False, msg_timestamp = Some noon\<rparr>"

definition message_1 :: jsval where
  "message_1 = JObj [(''id'', JStr ''m1''), (''chatId'', JStr ''1''), (''text'', JStr ''hello''),
                     (''isUser'', JBool True), (''timestamp'', JDate (Some noon))]"

definition message_2 :: jsval where
  "message_2 = JObj [(''id'', JStr ''m2''), (''chatId'', JStr ''1''), (''text'', JStr ''there''),
                     (''isUser'', JBool False), (''timestamp'', JDate (Some noon))]"

definition chat_a_1 :: jsval where
  "chat_a_1 = JObj [(''id'', JStr ''1''), (''title'', JStr ''a''), (''lastMessage'', JStr ''hello''),
                    (''lastMessageTime'', JDate (Some noon)),
                    (''messages'', JArr [message_1])]"

definition chat_a_2 :: jsval where
  "chat_a_2 = JObj [(''id'', JStr ''1''), (''title'', JStr ''a''), (''lastMessage'', JStr ''there''),
                    (''lastMessageTime'', JDate (Some noon)),
                    (''messages'', JArr [message_1, message_2])]"

definition store_ab_1 :: storage where
  "store_ab_1 = setItem CHATS (JArr [chat_a_1, chat_b_read]) store_ab"

definition store_ab_2 :: storage where
  "store_ab_2 = setItem CHATS (JArr [chat_a_2, chat_b_read]) store_ab_1"

text \<open>Two tasks under one identifier, the first with a creation time that is no date.\<close>

definition task_x :: jsval where
  "task_x = JObj [(''id'', JStr ''d''), (''createdAt'', JStr ''garbage''),
                  (''title'', JStr ''x''), (''completed'', JBool False)]"

definition task_y :: jsval where
  "task_y = JObj [(''id'', JStr ''d''), (''createdAt'', JStr ''2024-01-01T00:00:00.000Z''),
                  (''title'', JStr ''y''), (''completed'', JBool False)]"

definition store_dup :: storage where
  "store_dup = [TASKS \<mapsto> JArr [task_x, task_y]]"

definition task_x_read :: jsval where
  "task_x_read = JObj [(''id'', JStr ''d''), (''createdAt'', JDate None),
                       (''title'', JStr ''x''), (''completed'', JBool False)]"

definition task_x_done :: jsval where
  "task_x_done = JObj [(''id'', JStr ''d''), (''createdAt'', JDate None),
                       (''title'', JStr ''x''), (''completed'', JBool True)]"

definition task_y_read :: jsval where
  "task_y_read = JObj [(''id'', JStr ''d''), (''createdAt'', JDate (Some midnight)),
                       (''title'', JStr ''y''), (''completed'', JBool False)]"

definition task_y_done :: jsval where
  "task_y_done = JObj [(''id'', JStr ''d''), (''createdAt'', JDate (Some midnight)),
                       (''title'', JStr ''y''), (''completed'', JBool True)]"

definition dup_once :: storage where
  "dup_once = setItem TASKS (JArr [task_x_done, task_y_read]) store_dup"

definition dup_twice :: storage where
  "dup_twice = setItem TASKS (JArr [task_y_done]) dup_once"

definition task_1_done :: jsval where
  "task_1_done = JObj [(''id'', JStr ''t1''), (''createdAt'', JDate (Some midnight)),
                       (''title'', JStr ''Task 1''), (''completed'', JBool True)]"

definition toggled_once :: storage where
  "toggled_once = setItem TASKS (JArr [task_1_done, task_2_read, task_3_read]) store_tasks"

definition toggled_twice :: storage where
  "toggled_twice = setItem TASKS (JArr [task_1_read, task_2_read, task_3_read]) toggled_once"

text \<open>A store with both collections, and what the first deletion of conversation 1 leaves.\<close>

definition store_all :: storage where
  "store_all = store_ab(TASKS \<mapsto> JArr [task_1, task_2, task_3])"

definition store_without_1 :: storage where
  "store_without_1 = setItem CHATS (JArr [chat_b_read]) store_all"

text \<open>
  A store with a profile, two conversations (the first with two messages) and three
  tasks; and a store with a profile and one conversation whose time of last message is
  not a date.
\<close>

definition store_full :: storage where
  "store_full =
     setItem USER_PROFILE createDefaultUserProfile
       (setItem TASKS (JArr [task_1_read, task_2_read, task_3_read])
          (setItem CHATS (JArr [chat_a_2, chat_b_read]) Map.empty))"

definition chat_g :: jsval where
  "chat_g = JObj [(''id'', JStr ''3''), (''title'', JStr ''g''), (''lastMessage'', JStr []),
                  (''lastMessageTime'', JStr ''garbage''),
                  (''messages'', JArr [])]"

definition chat_g_read :: jsval where
  "chat_g_read = JObj [(''id'', JStr ''3''), (''title'', JStr ''g''), (''lastMessage'', JStr []),
                       (''lastMessageTime'', JDate None),
                       (''messages'', JArr [])]"

definition store_g :: storage where
  "store_g = [CHATS \<mapsto> JArr [chat_g], USER_PROFILE \<mapsto> createDefaultUserProfile]"


section \<open>Reading back a date\<close>

lemma digit_val_digit_char: "digit_val (digit_char n) = Some (n mod 10)"
proof -
  have "(48 + n mod 10) mod 256 = 48 + n mod 10"
    by (rule mod_less) (simp add: less_le_trans [OF add_strict_left_mono [OF mod_less_divisor]])
  then show ?thesis
    by (simp add: digit_val_def digit_char_def Let_def)
qed

lemma length_pad [simp]: "length (pad k n) = k"
  by (induction k arbitrary: n) auto

lemma number_from_append:
  "number_from acc (xs @ ys) =
     (case number_from acc xs of None \<Rightarrow> None | Some a \<Rightarrow> number_from a ys)"
  by (induction xs arbitrary: acc) (auto split: option.splits)

lemma number_from_pad: "number_from acc (pad k n) = Some (acc * 10 ^ k + n mod 10 ^ k)"
proof (induction k arbitrary: n)
  case 0
  show ?case by simp
next
  case (Suc k)
  have "10 * (n div 10 mod 10 ^ k) + n mod 10 = n mod (10 * 10 ^ k)"
    by (simp add: mod_mult2_eq)
  then show ?case
    by (simp add: number_from_append Suc digit_val_digit_char algebra_simps)
qed

lemma number_pad: "n < 10 ^ k \<Longrightarrow> number_from 0 (pad k n) = Some n"
  by (simp add: number_from_pad)

lemma pad_2: "pad 2 n = [digit_char (n div 10), digit_char n]"
  by (simp add: numeral_2_eq_2)

lemma pad_3: "pad 3 n = [digit_char (n div 10 div 10), digit_char (n div 10), digit_char n]"
  by (simp add: numeral_3_eq_3)

lemma number_2: "n < 100 \<Longrightarrow> number_from 0 [digit_char (n div 10), digit_char n] = Some n"
  using number_pad [of n 2] by (simp add: pad_2)

lemma number_3:
  "n < 1000 \<Longrightarrow>
   number_from 0 [digit_char (n div 10 div 10), digit_char (n div 10), digit_char n] = Some n"
  using number_pad [of n 3] by (simp add: pad_3)

lemma toISOString_fields: "toISOString u = year_text (utc_year u) @ fields_text u"
  by (simp add: toISOString_def fields_text_def)

lemma length_fields_text [simp]: "length (fields_text u) = 20"
  by (simp add: fields_text_def)

lemma days_in_month_le: "days_in_month y m \<le> 31"
  by (simp add: days_in_month_def)

lemma parse_fields_text:
  assumes "valid_utc u"
  shows "parse_fields (utc_year u) (fields_text u) = Some u"
proof -
  obtain y mo d h m s f where u: "u = UTC y mo d h m s f" by (cases u)
  from assms have b: "mo < 100" "d < 100" "h < 100" "m < 100" "s < 100" "f < 1000"
    using days_in_month_le [of y mo] by (auto simp: valid_utc_def u)
  have t: "fields_text u =
     [CHR ''-'', digit_char (mo div 10), digit_char mo, CHR ''-'',
      digit_char (d div 10), digit_char d, CHR ''T'',
      digit_char (h div 10), digit_char h, CHR '':'',
      digit_char (m div 10), digit_char m, CHR '':'',
      digit_char (s div 10), digit_char s, CHR ''.'',
      digit_char (f div 10 div 10), digit_char (f div 10), digit_char f, CHR ''Z'']"
    by (simp add: fields_text_def pad_2 pad_3 u)
  show ?thesis
    unfolding t parse_fields_def using assms b
    by (simp add: number_2 number_3 u del: number_from.simps)
qed

lemma year_text_4: "0 \<le> y \<Longrightarrow> y \<le> 9999 \<Longrightarrow> year_text y = pad 4 (nat y)"
  by (simp add: year_text_def)

lemma Date_parse_toISOString:
  assumes "valid_utc u"
  shows "Date_parse (toISOString u) = Some u"
proof (cases "0 \<le> utc_year u \<and> utc_year u \<le> 9999")
  case True
  then have "nat (utc_year u) < 10 ^ 4"
    by (simp add: nat_less_iff)
  then have n: "number_from 0 (pad 4 (nat (utc_year u))) = Some (nat (utc_year u))"
    by (rule number_pad)
  from True have "toISOString u = pad 4 (nat (utc_year u)) @ fields_text u"
    by (simp add: toISOString_fields year_text_def)
  then show ?thesis
    using True n parse_fields_text [OF assms] by (simp add: Date_parse_def)
next
  case False
  let ?sign = "if utc_year u < 0 then CHR ''-'' else CHR ''+''"
  from assms have "\<bar>utc_year u\<bar> < 1000000"
    unfolding valid_utc_def by linarith
  then have "nat \<bar>utc_year u\<bar> < 10 ^ 6"
    by (simp add: nat_less_iff)
  then have n: "number_from 0 (pad 6 (nat \<bar>utc_year u\<bar>)) = Some (nat \<bar>utc_year u\<bar>)"
    by (rule number_pad)
  from False have t: "toISOString u = ?sign # pad 6 (nat \<bar>utc_year u\<bar>) @ fields_text u"
    by (simp add: toISOString_fields year_text_def)
  show ?thesis
    unfolding t Date_parse_def using False n parse_fields_text [OF assms]
    by (auto simp: )
qed

lemma parse_fields_valid: "parse_fields y s = Some u \<Longrightarrow> valid_utc u"
  by (auto simp: parse_fields_def Let_def split: if_splits option.splits)

lemma Date_parse_valid: "Date_parse s = Some u \<Longrightarrow> valid_utc u"
  by (auto simp: Date_parse_def split: if_splits option.splits dest: parse_fields_valid)

lemma valid_noon: "valid_utc noon"
  by (simp add: valid_utc_def noon_def days_in_month_def)

lemma valid_midnight: "valid_utc midnight"
  by (simp add: valid_utc_def midnight_def days_in_month_def)

lemma iso_midnight: "toISOString midnight = ''2024-01-01T00:00:00.000Z''"
  by code_simp

lemma parse_midnight: "Date_parse ''2024-01-01T00:00:00.000Z'' = Some midnight"
  using Date_parse_toISOString [OF valid_midnight] by (simp add: iso_midnight)

lemma parse_garbage: "Date_parse ''garbage'' = None"
  by (simp add: Date_parse_def)

section \<open>Basic facts\<close>

lemma getItem_setItem_same: "getItem (setItem k v s) k = json v"
  by (simp add: getItem_def setItem_def)

lemma getItem_setItem_other: "k' \<noteq> k \<Longrightarrow> getItem (setItem k v s) k' = getItem s k'"
  by (simp add: getItem_def setItem_def)

lemma findIndex_None: "findIndex P xs = None \<longleftrightarrow> (\<forall>x \<in> set xs. \<not> P x)"
  by (induction xs) auto

lemma findIndex_Some:
  "findIndex P xs = Some i \<Longrightarrow> i < length xs \<and> P (xs ! i) \<and> (\<forall>k < i. \<not> P (xs ! k))"
proof (induction xs arbitrary: i)
  case Nil
  then show ?case by simp
next
  case (Cons x xs)
  show ?case
  proof (cases "P x")
    case True
    with Cons.prems show ?thesis by simp
  next
    case False
    with Cons.prems obtain j where j: "findIndex P xs = Some j" "i = Suc j"
      by auto
    from Cons.IH [OF j(1)] False j(2) show ?thesis
      by (auto simp: less_Suc_eq_0_disj)
  qed
qed

lemma findIndex_cases:
  "(findIndex P xs = None \<and> (\<forall>x \<in> set xs. \<not> P x)) \<or>
   (\<exists>i < length xs. findIndex P xs = Some i \<and> P (xs ! i) \<and> (\<forall>k < i. \<not> P (xs ! k)))"
  using findIndex_None [of P xs] findIndex_Some [of P xs]
  by (cases "findIndex P xs") auto

lemma findIndex_cong_set:
  "(\<And>x. x \<in> set xs \<Longrightarrow> P x = Q x) \<Longrightarrow> findIndex P xs = findIndex Q xs"
  by (induction xs) auto

lemma sanitizeStorageData_valid:
  "sanitizeStorageData d v = Inr xs \<Longrightarrow> x \<in> set xs \<Longrightarrow> v x"
  by (auto simp: sanitizeStorageData_def split: jsval.splits sum.splits)

lemma getChats_valid: "c \<in> set (getChats s) \<Longrightarrow> validateChat c"
  by (auto simp: getChats_def Let_def split: if_splits sum.splits
           dest: sanitizeStorageData_valid [OF sym])

lemma getTasks_valid: "t \<in> set (getTasks s) \<Longrightarrow> validateTask t"
  by (auto simp: getTasks_def Let_def split: if_splits sum.splits
           dest: sanitizeStorageData_valid [OF sym])

lemma strict_eq_string: "is_string a \<Longrightarrow> strict_eq a b = (a = b)"
  by (cases a) auto

lemma chat_id_eq:
  "c \<in> set (getChats s) \<Longrightarrow> strict_eq (get_prop c ''id'') v = (get_prop c ''id'' = v)"
  by (rule strict_eq_string) (auto dest: getChats_valid simp: validateChat_def)

lemma task_id_eq:
  "t \<in> set (getTasks s) \<Longrightarrow> strict_eq (get_prop t ''id'') v = (get_prop t ''id'' = v)"
  by (rule strict_eq_string) (auto dest: getTasks_valid simp: validateTask_def)

lemma nth_id_mem:
  "i < length xs \<Longrightarrow> get_prop (xs ! i) ''id'' \<in> set (map (\<lambda>c. get_prop c ''id'') xs)"
  by (metis length_map nth_map nth_mem)

section \<open>Update\<close>

lemma updateChat_eq:
  "\<not> nullish r \<Longrightarrow> updateChat r s =
     (case findIndex (\<lambda>c. get_prop c ''id'' = get_prop r ''id'') (getChats s) of
        None \<Rightarrow> Inl (ChatNotFound (get_prop r ''id''))
      | Some i \<Rightarrow> Inr (setItem CHATS (JArr ((getChats s)[i := r])) s))"
  unfolding updateChat_def Let_def
  using findIndex_cong_set [of "getChats s"
      "\<lambda>c. strict_eq (get_prop c ''id'') (get_prop r ''id'')"
      "\<lambda>c. get_prop c ''id'' = get_prop r ''id''"]
  by (simp add: chat_id_eq)

lemma updateTask_eq:
  "\<not> nullish r \<Longrightarrow> updateTask r s =
     (case findIndex (\<lambda>c. get_prop c ''id'' = get_prop r ''id'') (getTasks s) of
        None \<Rightarrow> Inl (TaskNotFound (get_prop r ''id''))
      | Some i \<Rightarrow> Inr (setItem TASKS (JArr ((getTasks s)[i := r])) s))"
  unfolding updateTask_def Let_def
  using findIndex_cong_set [of "getTasks s"
      "\<lambda>c. strict_eq (get_prop c ''id'') (get_prop r ''id'')"
      "\<lambda>c. get_prop c ''id'' = get_prop r ''id''"]
  by (simp add: task_id_eq)

lemma updateChat_cases:
  assumes "\<not> nullish r"
  shows "(get_prop r ''id'' \<notin> set (map (\<lambda>c. get_prop c ''id'') (getChats s)) \<and>
          updateChat r s = Inl (ChatNotFound (get_prop r ''id''))) \<or>
         (\<exists>i < length (getChats s).
            get_prop (getChats s ! i) ''id'' = get_prop r ''id'' \<and>
            (\<forall>k < i. get_prop (getChats s ! k) ''id'' \<noteq> get_prop r ''id'') \<and>
            updateChat r s = Inr (setItem CHATS (JArr ((getChats s)[i := r])) s))"
  using findIndex_cases [of "\<lambda>c. get_prop c ''id'' = get_prop r ''id''" "getChats s"]
  by (auto simp: updateChat_eq [OF assms])

lemma updateTask_cases:
  assumes "\<not> nullish r"
  shows "(get_prop r ''id'' \<notin> set (map (\<lambda>c. get_prop c ''id'') (getTasks s)) \<and>
          updateTask r s = Inl (TaskNotFound (get_prop r ''id''))) \<or>
         (\<exists>i < length (getTasks s).
            get_prop (getTasks s ! i) ''id'' = get_prop r ''id'' \<and>
            (\<forall>k < i. get_prop (getTasks s ! k) ''id'' \<noteq> get_prop r ''id'') \<and>
            updateTask r s = Inr (setItem TASKS (JArr ((getTasks s)[i := r])) s))"
  using findIndex_cases [of "\<lambda>c. get_prop c ''id'' = get_prop r ''id''" "getTasks s"]
  by (auto simp: updateTask_eq [OF assms])

section \<open>Writing and reading back\<close>

lemma get_prop_json:
  assumes "get_prop x k \<noteq> JUndefined"
  shows "get_prop (json x) k = json (get_prop x k)"
proof (cases x)
  case (JObj fs)
  with assms obtain v where v: "map_of fs k = Some v" "v \<noteq> JUndefined"
    by (auto split: option.splits)
  then have "map_of (map (\<lambda>(k, v). (k, json v)) (filter (\<lambda>(k, v). v \<noteq> JUndefined) fs)) k
             = Some (json v)"
    by (induction fs) (auto split: if_splits)
  with v JObj show ?thesis by simp
qed (use assms in auto)

lemma get_prop_set_prop_same: "get_prop (set_prop (JObj fs) k v) k = v"
  by (simp add: update_conv')

lemma get_prop_set_prop_other: "k' \<noteq> k \<Longrightarrow> get_prop (set_prop x k v) k' = get_prop x k'"
  by (cases x) (simp_all add: update_conv')

lemma is_string_json: "is_string v \<Longrightarrow> json v = v"
  by (cases v) auto

lemma validateChat_obj: "validateChat c \<Longrightarrow> \<exists>fs. c = JObj fs"
  by (cases c) (auto simp: validateChat_def)

lemma validateTask_obj: "validateTask c \<Longrightarrow> \<exists>fs. c = JObj fs"
  by (cases c) (auto simp: validateTask_def)

lemma validateMessage_obj: "validateMessage c \<Longrightarrow> \<exists>fs. c = JObj fs"
  by (cases c) (auto simp: validateMessage_def)

lemma find_first:
  "i < length xs \<Longrightarrow> P (xs ! i) \<Longrightarrow> \<forall>k < i. \<not> P (xs ! k) \<Longrightarrow> find P xs = Some (xs ! i)"
proof (induction xs arbitrary: i)
  case Nil
  then show ?case by simp
next
  case (Cons x xs)
  show ?case
  proof (cases i)
    case 0
    with Cons.prems show ?thesis by simp
  next
    case (Suc j)
    with Cons.prems have "\<not> P x" by auto
    moreover from Suc Cons.prems have "find P xs = Some (xs ! j)"
      by (intro Cons.IH) auto
    ultimately show ?thesis using Suc by simp
  qed
qed

lemma find_Some_mem: "find P xs = Some x \<Longrightarrow> x \<in> set xs \<and> P x"
  by (induction xs) (auto split: if_splits)

lemma getChat_truthy:
  assumes "truthy (getChat s ident)"
  shows "getChat s ident \<in> set (getChats s) \<and> get_prop (getChat s ident) ''id'' = JStr ident"
proof -
  from assms obtain c where c: "find (\<lambda>chat. strict_eq (get_prop chat ''id'') (JStr ident)) (getChats s) = Some c"
    "getChat s ident = c"
    by (auto simp: getChat_def split: option.splits if_splits)
  from find_Some_mem [OF c(1)] c(2) show ?thesis
    by (auto simp: chat_id_eq)
qed

lemma getTask_truthy:
  assumes "truthy (getTask s ident)"
  shows "getTask s ident \<in> set (getTasks s) \<and> get_prop (getTask s ident) ''id'' = JStr ident"
proof -
  from assms obtain c where c: "find (\<lambda>task. strict_eq (get_prop task ''id'') (JStr ident)) (getTasks s) = Some c"
    "getTask s ident = c"
    by (auto simp: getTask_def split: option.splits if_splits)
  from find_Some_mem [OF c(1)] c(2) show ?thesis
    by (auto simp: task_id_eq)
qed

lemma persisted_setItem: "persisted k (setItem k (JArr xs) s) = map json xs"
  by (simp add: persisted_def getItem_setItem_same)

lemma chat_id_json:
  "c \<in> set (getChats s) \<Longrightarrow> get_prop (json c) ''id'' = get_prop c ''id''"
  using getChats_valid [of c s]
  by (cases "get_prop c ''id''") (auto simp: validateChat_def get_prop_json)

lemma task_id_json:
  "c \<in> set (getTasks s) \<Longrightarrow> get_prop (json c) ''id'' = get_prop c ''id''"
  using getTasks_valid [of c s]
  by (cases "get_prop c ''id''") (auto simp: validateTask_def get_prop_json)

lemma get_prop_reviveDate:
  "get_prop (reviveDate f x) k = (if k = f then revived (get_prop x k) else get_prop x k)"
proof (cases x)
  case (JObj fs)
  show ?thesis
    by (cases "get_prop x f")
       (auto simp: reviveDate_def revived_def JObj update_conv' split: option.splits)
qed (simp_all add: reviveDate_def revived_def)

lemma reviveDate_nullish [simp]: "nullish (reviveDate f x) = nullish x"
  by (cases x; cases "get_prop x f") (auto simp: reviveDate_def)

lemma reviveDate_obj: "(\<exists>fs. reviveDate f x = JObj fs) = (\<exists>fs. x = JObj fs)"
  by (cases x; cases "get_prop x f") (auto simp: reviveDate_def)

lemma sanitizeItem_Inl: "throws x \<Longrightarrow> sanitizeItem x = Inl TypeError"
  by (auto simp: throws_def sanitizeItem_def Let_def get_prop_reviveDate split: jsval.splits)

lemma sanitizeItem_Inr:
  assumes "\<not> throws x"
  shows "\<exists>y. sanitizeItem x = Inr y \<and> \<not> nullish y \<and>
             ((\<exists>fs. y = JObj fs) = (\<exists>fs. x = JObj fs)) \<and>
             (\<forall>k. get_prop y k =
                (if k \<in> date_fields then revived (get_prop x k)
                 else if k = ''messages'' then
                   (case get_prop x k of JArr ms \<Rightarrow> JArr (map (reviveDate ''timestamp'') ms) | v \<Rightarrow> v)
                 else get_prop x k))"
proof -
  let ?i3 = "reviveDate ''createdAt'' (reviveDate ''lastMessageTime'' (reviveDate ''timestamp'' x))"
  have n: "\<not> nullish x" using assms by (simp add: throws_def)
  have m: "get_prop ?i3 ''messages'' = get_prop x ''messages''"
    by (simp add: get_prop_reviveDate)
  have o: "(\<exists>fs. ?i3 = JObj fs) = (\<exists>fs. x = JObj fs)"
    by (simp add: reviveDate_obj)
  have g: "get_prop ?i3 k = (if k \<in> date_fields then revived (get_prop x k) else get_prop x k)" for k
    by (auto simp: get_prop_reviveDate date_fields_def)
  show ?thesis
  proof (cases "get_prop x ''messages''")
    case (JArr ms)
    with assms have ok: "\<not> list_ex nullish ms" by (simp add: throws_def)
    from JArr obtain fs where fs: "x = JObj fs" by (cases x) auto
    with o obtain fs3 where fs3: "?i3 = JObj fs3" by auto
    have s: "sanitizeItem x = Inr (set_prop ?i3 ''messages'' (JArr (map (reviveDate ''timestamp'') ms)))"
      using n ok JArr m by (simp add: sanitizeItem_def Let_def)
    have "get_prop (set_prop ?i3 ''messages'' v) k =
            (if k = ''messages'' then v else get_prop ?i3 k)" for v k
      unfolding fs3 by (simp add: update_conv')
    then show ?thesis
      unfolding s using g JArr fs fs3 by (auto simp: date_fields_def)
  qed (use n m g o in \<open>auto simp: sanitizeItem_def Let_def date_fields_def\<close>)
qed

lemma sanitizeItem_revive: "\<not> throws x \<Longrightarrow> sanitizeItem x = Inr (revive x)"
  using sanitizeItem_Inr [of x] by (auto simp: revive_def)

lemma get_prop_revive:
  "\<not> throws x \<Longrightarrow> get_prop (revive x) k =
     (if k \<in> date_fields then revived (get_prop x k)
      else if k = ''messages'' then
        (case get_prop x k of JArr ms \<Rightarrow> JArr (map (reviveDate ''timestamp'') ms) | v \<Rightarrow> v)
      else get_prop x k)"
  using sanitizeItem_Inr [of x] by (auto simp: revive_def)

lemma revive_obj: "\<not> throws x \<Longrightarrow> (\<exists>fs. revive x = JObj fs) = (\<exists>fs. x = JObj fs)"
  using sanitizeItem_Inr [of x] by (auto simp: revive_def)

lemma sanitizeItems_cases:
  "((\<exists>x \<in> set xs. throws x) \<and> sanitizeItems xs = Inl TypeError) \<or>
   ((\<forall>x \<in> set xs. \<not> throws x) \<and> sanitizeItems xs = Inr (map revive xs))"
proof (induction xs)
  case Nil
  show ?case by simp
next
  case (Cons x xs)
  show ?case
  proof (cases "throws x")
    case True
    then show ?thesis by (simp add: sanitizeItem_Inl)
  next
    case False
    with Cons show ?thesis
      by (auto simp: sanitizeItem_revive)
  qed
qed

lemma sanitizeStorageData_array:
  "sanitizeStorageData (JArr xs) v =
     (if \<exists>x \<in> set xs. throws x then Inl TypeError else Inr (filter v (map revive xs)))"
  using sanitizeItems_cases [of xs] by (auto simp: sanitizeStorageData_def)

lemma getChats_setItem:
  "getChats (setItem CHATS (JArr xs) s) =
     (if \<exists>x \<in> set xs. throws (json x) then [] else filter validateChat (map (revive \<circ> json) xs))"
  by (simp add: getChats_def getItem_setItem_same sanitizeStorageData_array)

lemma getTasks_setItem:
  "getTasks (setItem TASKS (JArr xs) s) =
     (if \<exists>x \<in> set xs. throws (json x) then [] else filter validateTask (map (revive \<circ> json) xs))"
  by (simp add: getTasks_def getItem_setItem_same sanitizeStorageData_array)

lemma toISOString_nonempty: "toISOString u \<noteq> []"
  by (simp add: toISOString_def)

lemma validateMessage_json_not_nullish: "validateMessage m \<Longrightarrow> \<not> nullish (json m)"
  by (drule validateMessage_obj) auto

lemma validateChat_json_no_throw:
  assumes "validateChat c"
  shows "\<not> throws (json c)"
proof -
  from validateChat_obj [OF assms] obtain fs where fs: "c = JObj fs" by auto
  from assms obtain msgs where m: "get_prop c ''messages'' = JArr msgs" "list_all validateMessage msgs"
    by (cases "get_prop c ''messages''") (auto simp: validateChat_def)
  have "get_prop (json c) ''messages'' = JArr (map json msgs)"
    by (simp add: get_prop_json m(1))
  moreover have "\<not> list_ex nullish (map json msgs)"
    using m(2) by (auto simp: list_ex_iff list_all_iff validateMessage_json_not_nullish)
  ultimately show ?thesis
    by (simp add: throws_def fs)
qed

lemma createChat_def2:
  "createChat now newId t s =
     (JObj [(''id'', JStr newId),
            (''title'', JStr (if trim t \<noteq> [] then trim t else ''New Chat'')),
            (''lastMessage'', JStr []),
            (''lastMessageTime'', JDate (Some now)),
            (''messages'', JArr [])],
      setItem CHATS (JArr (JObj [(''id'', JStr newId),
            (''title'', JStr (if trim t \<noteq> [] then trim t else ''New Chat'')),
            (''lastMessage'', JStr []),
            (''lastMessageTime'', JDate (Some now)),
            (''messages'', JArr [])] # getChats s)) s)"
  by (simp add: createChat_def Let_def)

lemma find_filter_map_first:
  "i < length xs \<Longrightarrow> P (f (xs ! i)) \<Longrightarrow> Q (f (xs ! i)) \<Longrightarrow> \<forall>k < i. \<not> P (f (xs ! k)) \<Longrightarrow>
   find P (filter Q (map f xs)) = Some (f (xs ! i))"
proof (induction xs arbitrary: i)
  case Nil
  then show ?case by simp
next
  case (Cons x xs)
  show ?case
  proof (cases i)
    case 0
    with Cons.prems show ?thesis by simp
  next
    case (Suc j)
    with Cons.prems have "\<not> P (f x)" by auto
    moreover from Suc Cons.prems have "find P (filter Q (map f xs)) = Some (f (xs ! j))"
      by (intro Cons.IH) auto
    ultimately show ?thesis using Suc by simp
  qed
qed

lemma validateChat_truthy: "validateChat c \<Longrightarrow> truthy c"
  by (drule validateChat_obj) auto

lemma validateTask_truthy: "validateTask c \<Longrightarrow> truthy c"
  by (drule validateTask_obj) auto

lemma getChat_eq:
  "getChat s ident =
     (case find (\<lambda>c. get_prop c ''id'' = JStr ident) (getChats s) of None \<Rightarrow> JNull | Some c \<Rightarrow> c)"
proof -
  have "find (\<lambda>chat. strict_eq (get_prop chat ''id'') (JStr ident)) (getChats s) =
        find (\<lambda>c. get_prop c ''id'' = JStr ident) (getChats s)"
    by (rule find_cong) (auto simp: chat_id_eq)
  then show ?thesis
    by (auto simp: getChat_def split: option.splits
             dest!: find_Some_mem getChats_valid validateChat_truthy)
qed

lemma getTask_eq:
  "getTask s ident =
     (case find (\<lambda>c. get_prop c ''id'' = JStr ident) (getTasks s) of None \<Rightarrow> JNull | Some c \<Rightarrow> c)"
proof -
  have "find (\<lambda>task. strict_eq (get_prop task ''id'') (JStr ident)) (getTasks s) =
        find (\<lambda>c. get_prop c ''id'' = JStr ident) (getTasks s)"
    by (rule find_cong) (auto simp: task_id_eq)
  then show ?thesis
    by (auto simp: getTask_def split: option.splits
             dest!: find_Some_mem getTasks_valid validateTask_truthy)
qed

lemma id_revive_json:
  assumes "is_string (get_prop c ''id'')" and "\<not> throws (json c)"
  shows "get_prop (revive (json c)) ''id'' = get_prop c ''id''"
proof -
  from assms(1) have "get_prop (json c) ''id'' = get_prop c ''id''"
    by (cases "get_prop c ''id''") (auto simp: get_prop_json)
  then show ?thesis
    by (simp add: get_prop_revive [OF assms(2)] date_fields_def)
qed

text \<open>What a successful update leaves in the store, and what is read back.\<close>

lemma updateChat_persisted:
  assumes "updateChat r s = Inr s'" and "get_prop r ''id'' = JStr ident"
  shows "persisted_by_id CHATS ident s' = Some (json r)"
    and "\<not> throws (json r) \<Longrightarrow> validateChat (revive (json r)) \<Longrightarrow>
         getChat s' ident = revive (json r)"
proof -
  from assms(1) have n: "\<not> nullish r"
    by (auto simp: updateChat_def Let_def)
  from updateChat_cases [OF n, of s] assms obtain i where i: "i < length (getChats s)"
    "get_prop (getChats s ! i) ''id'' = JStr ident"
    "\<forall>k < i. get_prop (getChats s ! k) ''id'' \<noteq> JStr ident"
    "s' = setItem CHATS (JArr ((getChats s)[i := r])) s"
    by auto
  let ?xs = "(getChats s)[i := r]"
  have before: "getChats s ! k \<in> set (getChats s)" "?xs ! k = getChats s ! k" if "k < i" for k
    using that i(1) by simp_all
  have idj: "get_prop (json (getChats s ! k)) ''id'' = get_prop (getChats s ! k) ''id''"
    if "k < i" for k
    using chat_id_json [OF before(1) [OF that]] .
  have "find (\<lambda>r. get_prop r ''id'' = JStr ident) (filter (\<lambda>x. True) (map json ?xs)) = Some (json (?xs ! i))"
  proof (rule find_filter_map_first)
    show "i < length ?xs" using i(1) by simp
    show "get_prop (json (?xs ! i)) ''id'' = JStr ident"
      using i(1) assms(2) by (simp add: get_prop_json)
    show "\<forall>k < i. get_prop (json (?xs ! k)) ''id'' \<noteq> JStr ident"
      using before(2) i(3) idj by simp
  qed simp
  then show "persisted_by_id CHATS ident s' = Some (json r)"
    using i(1) by (simp add: persisted_by_id_def i(4) persisted_setItem)
  assume nt: "\<not> throws (json r)" and v: "validateChat (revive (json r))"
  have all: "\<forall>x \<in> set ?xs. \<not> throws (json x)"
    using nt by (auto dest!: set_update_subset_insert [THEN subsetD] getChats_valid
                       validateChat_json_no_throw)
  have "find (\<lambda>c. get_prop c ''id'' = JStr ident) (filter validateChat (map (revive \<circ> json) ?xs))
          = Some ((revive \<circ> json) (?xs ! i))"
  proof (rule find_filter_map_first)
    show "i < length ?xs" using i(1) by simp
    show "get_prop ((revive \<circ> json) (?xs ! i)) ''id'' = JStr ident"
      using i(1) assms(2) nt by (simp add: id_revive_json)
    show "validateChat ((revive \<circ> json) (?xs ! i))"
      using i(1) v by simp
    show "\<forall>k < i. get_prop ((revive \<circ> json) (?xs ! k)) ''id'' \<noteq> JStr ident"
    proof (intro allI impI)
      fix k assume k: "k < i"
      from before [OF k] have "validateChat (getChats s ! k)"
        by (auto dest: getChats_valid)
      then have "get_prop (revive (json (getChats s ! k))) ''id'' = get_prop (getChats s ! k) ''id''"
        by (intro id_revive_json validateChat_json_no_throw) (simp_all add: validateChat_def)
      with before [OF k] i(3) k show "get_prop ((revive \<circ> json) (?xs ! k)) ''id'' \<noteq> JStr ident"
        by simp
    qed
  qed
  then show "getChat s' ident = revive (json r)"
    using i(1) all by (simp add: getChat_eq i(4) getChats_setItem)
qed

lemma updateTask_persisted:
  assumes "updateTask r s = Inr s'" and "get_prop r ''id'' = JStr ident"
  shows "persisted_by_id TASKS ident s' = Some (json r)"
proof -
  from assms(1) have n: "\<not> nullish r"
    by (auto simp: updateTask_def Let_def)
  from updateTask_cases [OF n, of s] assms obtain i where i: "i < length (getTasks s)"
    "get_prop (getTasks s ! i) ''id'' = JStr ident"
    "\<forall>k < i. get_prop (getTasks s ! k) ''id'' \<noteq> JStr ident"
    "s' = setItem TASKS (JArr ((getTasks s)[i := r])) s"
    by auto
  let ?xs = "(getTasks s)[i := r]"
  have before: "getTasks s ! k \<in> set (getTasks s)" "?xs ! k = getTasks s ! k" if "k < i" for k
    using that i(1) by simp_all
  have idj: "get_prop (json (getTasks s ! k)) ''id'' = get_prop (getTasks s ! k) ''id''"
    if "k < i" for k
    using task_id_json [OF before(1) [OF that]] .
  have "find (\<lambda>r. get_prop r ''id'' = JStr ident) (filter (\<lambda>x. True) (map json ?xs)) = Some (json (?xs ! i))"
  proof (rule find_filter_map_first)
    show "i < length ?xs" using i(1) by simp
    show "get_prop (json (?xs ! i)) ''id'' = JStr ident"
      using i(1) assms(2) by (simp add: get_prop_json)
    show "\<forall>k < i. get_prop (json (?xs ! k)) ''id'' \<noteq> JStr ident"
      using before(2) i(3) idj by simp
  qed simp
  then show "persisted_by_id TASKS ident s' = Some (json r)"
    using i(1) by (simp add: persisted_by_id_def i(4) persisted_setItem)
qed

section \<open>Reviving entry by entry\<close>

lemma map_values_keys [simp]: "map fst (map_values g fs) = map fst fs"
  by (induction fs) (auto simp: map_values_def)

lemma map_of_map_values:
  "map_of (map_values g fs) k = map_option (g k) (map_of fs k)"
  by (induction fs) (auto simp: map_values_def)

lemma update_as_map_values:
  "distinct (map fst fs) \<Longrightarrow> map_of fs f = Some v \<Longrightarrow>
   AList.update f w fs = map_values (\<lambda>k v'. if k = f then w else v') fs"
proof (induction fs)
  case Nil
  then show ?case by simp
next
  case (Cons p fs)
  obtain k v' where p: "p = (k, v')" by (cases p)
  show ?case
  proof (cases "k = f")
    case True
    with Cons.prems p have "f \<notin> fst ` set fs" by auto
    then have "map_values (\<lambda>k v'. if k = f then w else v') fs = fs"
      by (induction fs) (auto simp: map_values_def)
    with True p show ?thesis by (simp add: map_values_def)
  next
    case False
    with Cons p show ?thesis by (simp add: map_values_def)
  qed
qed

lemma map_values_id:
  "(\<And>k v. (k, v) \<in> set fs \<Longrightarrow> g k v = v) \<Longrightarrow> map_values g fs = fs"
  by (induction fs) (auto simp: map_values_def)

lemma map_values_cong:
  "(\<And>k v. (k, v) \<in> set fs \<Longrightarrow> g k v = h k v) \<Longrightarrow> map_values g fs = map_values h fs"
  by (induction fs) (auto simp: map_values_def)

lemma reviveDate_entries:
  assumes "distinct (map fst fs)"
  shows "reviveDate f (JObj fs) = JObj (map_values (\<lambda>k v. if k = f then revived v else v) fs)"
proof (cases "map_of fs f")
  case None
  then have "f \<notin> fst ` set fs" by (simp add: map_of_eq_None_iff)
  then have "map_values (\<lambda>k v. if k = f then revived v else v) fs = fs"
    by (intro map_values_id) force
  with None show ?thesis by (simp add: reviveDate_def)
next
  case (Some v)
  have only: "v' = v" if "(f, v') \<in> set fs" for v'
    using that Some assms by (metis map_of_is_SomeI option.inject)
  show ?thesis
  proof (cases "\<exists>s. v = JStr s \<and> s \<noteq> []")
    case True
    then obtain s where s: "v = JStr s" "s \<noteq> []" by auto
    have "map_values (\<lambda>k v'. if k = f then JDate (Date_parse s) else v') fs =
          map_values (\<lambda>k v. if k = f then revived v else v) fs"
    proof (rule map_values_cong)
      fix k v' assume "(k, v') \<in> set fs"
      then show "(if k = f then JDate (Date_parse s) else v') = (if k = f then revived v' else v')"
        using only [of v'] by (auto simp: revived_def s)
    qed
    with update_as_map_values [OF assms Some, of "JDate (Date_parse s)"] Some s
    show ?thesis by (simp add: reviveDate_def)
  next
    case False
    then have r: "revived v = v" by (cases v) (auto simp: revived_def)
    have "map_values (\<lambda>k v. if k = f then revived v else v) fs = fs"
      by (intro map_values_id) (auto dest: only simp: r)
    moreover from False Some have "reviveDate f (JObj fs) = JObj fs"
      by (cases v) (auto simp: reviveDate_def)
    ultimately show ?thesis by simp
  qed
qed

lemma map_values_comp:
  "map_values g (map_values h fs) = map_values (\<lambda>k v. g k (h k v)) fs"
  by (induction fs) (auto simp: map_values_def)

lemma revive_entries:
  assumes d: "distinct (map fst fs)" and nt: "\<not> throws (JObj fs)"
  shows "revive (JObj fs) = JObj (map_values revive_value fs)"
proof -
  let ?g = "\<lambda>k v. if k \<in> date_fields then revived v else v"
  let ?fs3 = "map_values ?g fs"
  have i3: "reviveDate ''createdAt'' (reviveDate ''lastMessageTime'' (reviveDate ''timestamp'' (JObj fs)))
            = JObj ?fs3"
    using d by (simp add: reviveDate_entries map_values_comp date_fields_def)
       (auto simp: map_values_def intro!: map_cong)
  have d3: "distinct (map fst ?fs3)" using d by simp
  have m3: "map_of ?fs3 ''messages'' = map_of fs ''messages''"
    by (simp add: map_of_map_values date_fields_def option.map_ident)
  show ?thesis
  proof (cases "\<exists>msgs. map_of fs ''messages'' = Some (JArr msgs)")
    case True
    then obtain msgs where msgs: "map_of fs ''messages'' = Some (JArr msgs)" by auto
    with nt have ok: "\<not> list_ex nullish msgs" by (simp add: throws_def)
    have s: "sanitizeItem (JObj fs) =
             Inr (JObj (AList.update ''messages'' (JArr (map (reviveDate ''timestamp'') msgs)) ?fs3))"
      using ok msgs m3 by (simp add: sanitizeItem_def Let_def i3)
    have only: "v = JArr msgs" if "(''messages'', v) \<in> set fs" for v
      using that msgs d by (metis map_of_is_SomeI option.inject)
    have "AList.update ''messages'' (JArr (map (reviveDate ''timestamp'') msgs)) ?fs3 =
          map_values (\<lambda>k v'. if k = ''messages'' then JArr (map (reviveDate ''timestamp'') msgs) else v') ?fs3"
      using msgs m3 by (intro update_as_map_values [OF d3]) simp
    also have "\<dots> = map_values revive_value fs"
      unfolding map_values_comp
    proof (rule map_values_cong)
      fix k v assume "(k, v) \<in> set fs"
      then show "(if k = ''messages'' then JArr (map (reviveDate ''timestamp'') msgs)
                  else if k \<in> date_fields then revived v else v) = revive_value k v"
        using only [of v] by (auto simp: revive_value_def date_fields_def)
    qed
    finally show ?thesis by (simp add: revive_def s)
  next
    case False
    then have s: "sanitizeItem (JObj fs) = Inr (JObj ?fs3)"
      using m3 by (auto simp: sanitizeItem_def Let_def i3 split: option.splits jsval.splits)
    have no: "\<not> (\<exists>msgs. v = JArr msgs)" if "(''messages'', v) \<in> set fs" for v
      using that False d by (metis map_of_is_SomeI)
    have "?fs3 = map_values revive_value fs"
    proof (rule map_values_cong)
      fix k v assume "(k, v) \<in> set fs"
      then show "(if k \<in> date_fields then revived v else v) = revive_value k v"
        using no [of v] by (auto simp: revive_value_def date_fields_def split: jsval.splits)
    qed
    then show ?thesis by (simp add: revive_def s)
  qed
qed

lemma getChats_stored:
  "s CHATS = Some (JArr xs) \<Longrightarrow>
   getChats s = (if \<exists>x \<in> set xs. throws x then [] else filter validateChat (map revive xs))"
  by (simp add: getChats_def getItem_def sanitizeStorageData_array)

lemma getTasks_stored:
  "s TASKS = Some (JArr xs) \<Longrightarrow>
   getTasks s = (if \<exists>x \<in> set xs. throws x then [] else filter validateTask (map revive xs))"
  by (simp add: getTasks_def getItem_def sanitizeStorageData_array)

lemmas eval_simps = throws_def revive_entries reviveDate_entries map_values_def revive_value_def
  date_fields_def revived_def validateChat_def validateMessage_def validateTask_def
  Date_parse_toISOString valid_noon valid_midnight toISOString_nonempty parse_midnight
  parse_garbage

lemma getChats_store_ab: "getChats store_ab = [chat_a_read, chat_b_read]"
proof -
  have "store_ab CHATS = Some (JArr [chat_a, chat_b])"
    by (simp add: store_ab_def)
  from getChats_stored [of store_ab "[chat_a, chat_b]", OF this] show ?thesis
    by (simp add: eval_simps chat_a_def chat_b_def chat_a_read_def chat_b_read_def)
qed

lemma getTasks_store_tasks: "getTasks store_tasks = [task_1_read, task_2_read, task_3_read]"
proof -
  have "store_tasks TASKS = Some (JArr [task_1, task_2, task_3])"
    by (simp add: store_tasks_def)
  from getTasks_stored [of store_tasks "[task_1, task_2, task_3]", OF this] show ?thesis
    by (simp add: eval_simps task_1_def task_2_def task_3_def task_1_read_def task_2_read_def
                  task_3_read_def)
qed

section \<open>Writing a collection back and reading it again\<close>

text \<open>
  The storage keeps JSON text, so the value found under a key is a JSON value. On such
  values, serializing what \<^verbatim>\<open>sanitizeStorageData\<close> produced and sanitizing it again
  reaches a fixed point after one round.
\<close>

lemma json_id: "is_json v \<Longrightarrow> json v = v"
proof (induction v rule: json.induct)
  case (8 xs)
  then show ?case by (auto simp: list_all_iff intro: map_idI)
next
  case (9 fs)
  then have u: "filter (\<lambda>(k, v). v \<noteq> JUndefined) fs = fs"
    by (auto simp: list_all_iff intro!: filter_True)
  from 9 have "map (\<lambda>(k, v). (k, json v)) fs = fs"
    unfolding u by (intro map_idI) (auto simp: list_all_iff)
  with u show ?case by simp
qed simp_all

lemma json_not_undefined [simp]: "json v \<noteq> JUndefined"
  by (induction v rule: json.induct) simp_all

lemma json_obj_values:
  "JUndefined \<notin> snd ` set gs \<Longrightarrow> json (JObj gs) = JObj (map_values (\<lambda>k. json) gs)"
proof -
  assume "JUndefined \<notin> snd ` set gs"
  then have "filter (\<lambda>(k, v). v \<noteq> JUndefined) gs = gs"
    by (intro filter_True) force
  then show ?thesis by (simp add: map_values_def)
qed

lemma json_json [simp]: "json (json v) = json v"
proof (induction v rule: json.induct)
  case (9 fs)
  have "filter (\<lambda>(k, v). v \<noteq> JUndefined) (map (\<lambda>(k, v). (k, json v)) (filter (\<lambda>(k, v). v \<noteq> JUndefined) fs))
        = map (\<lambda>(k, v). (k, json v)) (filter (\<lambda>(k, v). v \<noteq> JUndefined) fs)"
    by (intro filter_True) auto
  with 9 show ?case
    by (auto intro!: map_cong)
qed simp_all

lemma revived_not_undefined: "v \<noteq> JUndefined \<Longrightarrow> revived v \<noteq> JUndefined"
  by (cases v) (auto simp: revived_def)

lemma revive_value_not_undefined: "v \<noteq> JUndefined \<Longrightarrow> revive_value k v \<noteq> JUndefined"
  by (cases v) (auto simp: revive_value_def revived_def)

lemma revived_stable: "is_json v \<Longrightarrow> json (revived (json (revived v))) = json (revived v)"
proof (cases v)
  case (JStr s)
  show ?thesis
  proof (cases "Date_parse s")
    case None
    with JStr show ?thesis by (simp add: revived_def)
  next
    case (Some t)
    from Date_parse_valid [OF Some] have "Date_parse (toISOString t) = Some t"
      by (rule Date_parse_toISOString)
    with JStr Some show ?thesis
      by (simp add: revived_def toISOString_nonempty)
  qed
qed (simp_all add: revived_def)

lemma is_json_values: "is_json (JObj fs) \<Longrightarrow> (k, v) \<in> set fs \<Longrightarrow> is_json v"
  by (auto simp: list_all_iff)

lemma is_json_not_undefined: "is_json v \<Longrightarrow> v \<noteq> JUndefined"
  by auto

lemma map_values_no_undefined:
  "(\<And>k v. (k, v) \<in> set fs \<Longrightarrow> g k v \<noteq> JUndefined) \<Longrightarrow>
   JUndefined \<notin> snd ` set (map_values g fs)"
  by (force simp: map_values_def)

lemma json_map_values:
  assumes "\<And>k v. (k, v) \<in> set fs \<Longrightarrow> g k v \<noteq> JUndefined"
  shows "json (JObj (map_values g fs)) = JObj (map_values (\<lambda>k v. json (g k v)) fs)"
  using json_obj_values [OF map_values_no_undefined [of fs g, OF assms]]
  by (simp add: map_values_comp del: json.simps)

lemma reviveDate_stable:
  assumes "is_json m"
  shows "json (reviveDate f (json (reviveDate f m))) = json (reviveDate f m)"
proof (cases m)
  case (JObj fs)
  let ?g = "\<lambda>k v. if k = f then revived v else v"
  from assms JObj have d: "distinct (map fst fs)" by simp
  have g: "?g k v \<noteq> JUndefined" if "(k, v) \<in> set fs" for k v
  proof -
    from that assms JObj have "v \<noteq> JUndefined" by (auto simp: list_all_iff)
    then show ?thesis by (simp add: revived_not_undefined)
  qed
  have r1: "reviveDate f m = JObj (map_values ?g fs)"
    by (simp add: JObj reviveDate_entries [OF d])
  have j1: "json (reviveDate f m) = JObj (map_values (\<lambda>k v. json (?g k v)) fs)"
    unfolding r1 by (rule json_map_values) (rule g)
  have r2: "reviveDate f (json (reviveDate f m)) =
            JObj (map_values (\<lambda>k v. ?g k (json (?g k v))) fs)"
    unfolding j1 using d by (simp add: reviveDate_entries map_values_comp)
  have "json (reviveDate f (json (reviveDate f m))) =
        JObj (map_values (\<lambda>k v. json (?g k (json (?g k v)))) fs)"
    unfolding r2 by (rule json_map_values) (simp add: revived_not_undefined)
  also have "map_values (\<lambda>k v. json (?g k (json (?g k v)))) fs =
             map_values (\<lambda>k v. json (?g k v)) fs"
  proof (rule map_values_cong)
    fix k v assume "(k, v) \<in> set fs"
    with assms JObj have "is_json v" by (auto simp: list_all_iff)
    then show "json (?g k (json (?g k v))) = json (?g k v)"
      by (simp add: revived_stable)
  qed
  finally show ?thesis by (simp add: j1)
qed (use assms in \<open>simp_all add: reviveDate_def\<close>)

lemma revive_value_stable:
  assumes "is_json v"
  shows "json (revive_value k (json (revive_value k v))) = json (revive_value k v)"
proof (cases "k \<in> date_fields")
  case True
  with assms show ?thesis by (simp add: revive_value_def revived_stable)
next
  case False
  show ?thesis
  proof (cases "k = ''messages''")
    case True
    show ?thesis
    proof (cases v)
      case (JArr msgs)
      with assms have "\<forall>m \<in> set msgs. is_json m" by (simp add: list_all_iff)
      then show ?thesis
        using True False JArr by (simp add: revive_value_def reviveDate_stable)
    qed (use assms True False in \<open>simp_all add: revive_value_def\<close>)
  next
    case False
    with \<open>k \<notin> date_fields\<close> show ?thesis by (simp add: revive_value_def)
  qed
qed

lemma revive_non_object: "\<not> nullish j \<Longrightarrow> \<nexists>fs. j = JObj fs \<Longrightarrow> revive j = j"
  by (cases j) (simp_all add: revive_def sanitizeItem_def reviveDate_def Let_def)

lemma json_reviveDate_not_nullish:
  assumes "is_json m" and "\<not> nullish m"
  shows "\<not> nullish (json (reviveDate f m))"
proof (cases "\<exists>fs. m = JObj fs")
  case True
  then obtain gs where "reviveDate f m = JObj gs"
    using reviveDate_obj [of f m] by auto
  then show ?thesis by simp
next
  case False
  then have "reviveDate f m = m"
    by (cases m) (simp_all add: reviveDate_def)
  with assms show ?thesis by (simp add: json_id)
qed

lemma revive_json_stable:
  assumes j: "is_json j" and nt: "\<not> throws j"
  shows "\<not> throws (json (revive j))"
    and "json (revive (json (revive j))) = json (revive j)"
proof -
  have "\<not> throws (json (revive j)) \<and> json (revive (json (revive j))) = json (revive j)"
  proof (cases "\<exists>fs. j = JObj fs")
    case False
    from nt have n: "\<not> nullish j" by (simp add: throws_def)
    from revive_non_object [OF n False] j nt show ?thesis
      by (simp add: json_id)
  next
    case True
    then obtain fs where fs: "j = JObj fs" by auto
    let ?h = "\<lambda>k v. json (revive_value k v)"
    from j fs have d: "distinct (map fst fs)" by simp
    have vj: "is_json v" if "(k, v) \<in> set fs" for k v
      using that j fs by (auto simp: list_all_iff)
    have x: "revive j = JObj (map_values revive_value fs)"
      using revive_entries [OF d] nt fs by simp
    have jx: "json (revive j) = JObj (map_values ?h fs)"
      unfolding x
      by (rule json_map_values) (auto dest!: vj intro!: revive_value_not_undefined)
    have nt2: "\<not> throws (JObj (map_values ?h fs))"
    proof (cases "map_of fs ''messages''")
      case None
      then show ?thesis by (simp add: throws_def map_of_map_values)
    next
      case (Some v)
      then have mem: "(''messages'', v) \<in> set fs" by (rule map_of_SomeD)
      note v = vj [OF mem]
      show ?thesis
      proof (cases v)
        case (JArr msgs)
        with nt fs Some have nn: "\<forall>m \<in> set msgs. \<not> nullish m"
          by (simp add: throws_def list_ex_iff)
        from v JArr have "\<forall>m \<in> set msgs. is_json m" by (simp add: list_all_iff)
        with nn have "\<forall>m \<in> set msgs. \<not> nullish (json (reviveDate ''timestamp'' m))"
          by (simp add: json_reviveDate_not_nullish)
        then show ?thesis
          using Some JArr
          by (simp add: throws_def map_of_map_values revive_value_def date_fields_def list_ex_iff)
      qed (use v Some in \<open>simp_all add: throws_def map_of_map_values revive_value_def date_fields_def\<close>)
    qed
    have y: "revive (json (revive j)) = JObj (map_values (\<lambda>k v. revive_value k (?h k v)) fs)"
      unfolding jx using revive_entries [of "map_values ?h fs"] d nt2
      by (simp add: map_values_comp)
    have "json (revive (json (revive j))) =
          JObj (map_values (\<lambda>k v. json (revive_value k (?h k v))) fs)"
      unfolding y by (rule json_map_values) (simp add: revive_value_not_undefined)
    also have "map_values (\<lambda>k v. json (revive_value k (?h k v))) fs = map_values ?h fs"
      by (rule map_values_cong) (simp add: revive_value_stable vj)
    finally show ?thesis
      using nt2 by (simp add: jx)
  qed
  then show "\<not> throws (json (revive j))"
    and "json (revive (json (revive j))) = json (revive j)" by simp_all
qed

lemma reread_stable:
  assumes "\<forall>x \<in> set xs. (\<exists>j. is_json j \<and> \<not> throws j \<and> x = revive j)"
  shows "\<forall>x \<in> set xs. \<not> throws (json x)"
    and "\<forall>x \<in> set xs. \<not> throws (json (revive (json x)))"
    and "\<forall>x \<in> set xs. revive (json (revive (json x))) = revive (json x)"
  using assms revive_json_stable by auto

lemma sanitized_read_from_json:
  assumes "is_json d" and "sanitizeStorageData d v = Inr xs" and "x \<in> set xs"
  shows "(\<exists>j. is_json j \<and> \<not> throws j \<and> x = revive j)"
proof (cases d)
  case (JArr items)
  with assms(2) have nt: "\<forall>j \<in> set items. \<not> throws j" and xs: "xs = filter v (map revive items)"
    by (auto simp: sanitizeStorageData_array split: if_splits)
  from assms(1) JArr have "\<forall>j \<in> set items. is_json j" by (simp add: list_all_iff)
  with nt xs assms(3) show ?thesis by auto
qed (use assms in \<open>auto simp: sanitizeStorageData_def\<close>)

lemma getChats_read_from_json:
  "is_json (getItem s CHATS) \<Longrightarrow> x \<in> set (getChats s) \<Longrightarrow> (\<exists>j. is_json j \<and> \<not> throws j \<and> x = revive j)"
  by (auto simp: getChats_def Let_def split: if_splits sum.splits
           dest: sanitized_read_from_json [OF _ sym])

lemma getTasks_read_from_json:
  "is_json (getItem s TASKS) \<Longrightarrow> x \<in> set (getTasks s) \<Longrightarrow> (\<exists>j. is_json j \<and> \<not> throws j \<and> x = revive j)"
  by (auto simp: getTasks_def Let_def split: if_splits sum.splits
           dest: sanitized_read_from_json [OF _ sym])

text \<open>Writing back part of what was read, and reading it again twice.\<close>

lemma rewrite_twice:
  fixes v :: "jsval \<Rightarrow> bool" and xs :: "jsval list"
  assumes o: "\<forall>x \<in> set xs. (\<exists>j. is_json j \<and> \<not> throws j \<and> x = revive j)"
    and ids: "\<forall>x \<in> set xs. is_string (get_prop x ''id'') \<and> Q (get_prop x ''id'')"
  defines "once \<equiv> filter v (map (revive \<circ> json) xs)"
  shows "(\<forall>y \<in> set once. \<not> throws (json y)) \<and>
     filter (\<lambda>y. Q (get_prop y ''id'')) once = once \<and>
     filter v (map (revive \<circ> json) once) = once"
proof -
  note st = reread_stable [OF o]
  have mem: "\<exists>x \<in> set xs. y = revive (json x)" if "y \<in> set once" for y
    using that by (auto simp: once_def)
  have nt: "\<forall>y \<in> set once. \<not> throws (json y)"
    using mem st(2) by blast
  have keep: "filter (\<lambda>y. Q (get_prop y ''id'')) once = once"
  proof (rule filter_True, rule ballI)
    fix y assume "y \<in> set once"
    from mem [OF this] obtain x where x: "x \<in> set xs" "y = revive (json x)" by auto
    with ids st(1) have "get_prop y ''id'' = get_prop x ''id''"
      by (simp add: id_revive_json)
    with x ids show "Q (get_prop y ''id'')" by auto
  qed
  have "map (revive \<circ> json) once = once"
    using mem st(3) by (intro map_idI) auto
  moreover have "filter v once = once"
    by (simp add: once_def)
  ultimately have "filter v (map (revive \<circ> json) once) = once"
    by simp
  with nt keep show ?thesis by blast
qed

lemma ids_absent: "\<forall>y \<in> set xs. get_prop y ''id'' \<noteq> i \<Longrightarrow> i \<notin> set (ids xs)"
  by (auto simp: ids_def)

lemma deleteChat_def2:
  "deleteChat ident s =
     Inr (setItem CHATS (JArr (filter (\<lambda>c. get_prop c ''id'' \<noteq> JStr ident) (getChats s))) s)"
proof -
  have "filter (\<lambda>chat. \<not> strict_eq (get_prop chat ''id'') (JStr ident)) (getChats s) =
        filter (\<lambda>c. get_prop c ''id'' \<noteq> JStr ident) (getChats s)"
    by (rule filter_cong) (auto simp: chat_id_eq)
  then show ?thesis by (simp add: deleteChat_def Let_def)
qed

lemma deleteTask_def2:
  "deleteTask ident s =
     Inr (setItem TASKS (JArr (filter (\<lambda>c. get_prop c ''id'' \<noteq> JStr ident) (getTasks s))) s)"
proof -
  have "filter (\<lambda>task. \<not> strict_eq (get_prop task ''id'') (JStr ident)) (getTasks s) =
        filter (\<lambda>c. get_prop c ''id'' \<noteq> JStr ident) (getTasks s)"
    by (rule filter_cong) (auto simp: task_id_eq)
  then show ?thesis by (simp add: deleteTask_def Let_def)
qed

lemma deleteChat_twice:
  assumes j: "is_json (getItem s CHATS)"
    and 1: "deleteChat ident s = Inr s1" and 2: "deleteChat ident s1 = Inr s2"
  shows "getChats s2 = getChats s1 \<and> JStr ident \<notin> set (ids (getChats s1))"
proof -
  let ?Q = "\<lambda>i. i \<noteq> JStr ident"
  let ?F = "filter (\<lambda>c. ?Q (get_prop c ''id'')) (getChats s)"
  let ?once = "filter validateChat (map (revive \<circ> json) ?F)"
  from 1 have s1: "s1 = setItem CHATS (JArr ?F) s" by (simp add: deleteChat_def2)
  have o: "\<forall>x \<in> set ?F. (\<exists>j. is_json j \<and> \<not> throws j \<and> x = revive j)"
    using getChats_read_from_json [OF j] by auto
  have ids: "\<forall>x \<in> set ?F. is_string (get_prop x ''id'') \<and> ?Q (get_prop x ''id'')"
    by (auto dest!: getChats_valid simp: validateChat_def)
  from rewrite_twice [where v = validateChat and Q = ?Q, OF o ids]
  have nt: "\<forall>y \<in> set ?once. \<not> throws (json y)"
    and keep: "filter (\<lambda>c. ?Q (get_prop c ''id'')) ?once = ?once"
    and again: "filter validateChat (map (revive \<circ> json) ?once) = ?once"
    by blast+
  from reread_stable(1) [OF o] have g1: "getChats s1 = ?once"
    unfolding s1 by (subst getChats_setItem) auto
  from 2 have s2: "s2 = setItem CHATS (JArr ?once) s1"
    unfolding deleteChat_def2 g1 keep by simp
  have "getChats s2 = filter validateChat (map (revive \<circ> json) ?once)"
    unfolding s2 using nt by (subst getChats_setItem) (simp only: if_not_P bex_simps not_not)
  with again g1 have same: "getChats s2 = getChats s1" by simp
  from keep have "\<forall>y \<in> set ?once. get_prop y ''id'' \<noteq> JStr ident"
    by (simp only: filter_id_conv)
  then have "JStr ident \<notin> set (ids (getChats s1))"
    unfolding g1 by (rule ids_absent)
  with same show ?thesis by simp
qed

lemma deleteTask_twice:
  assumes j: "is_json (getItem s TASKS)"
    and 1: "deleteTask ident s = Inr s1" and 2: "deleteTask ident s1 = Inr s2"
  shows "getTasks s2 = getTasks s1 \<and> JStr ident \<notin> set (ids (getTasks s1))"
proof -
  let ?Q = "\<lambda>i. i \<noteq> JStr ident"
  let ?F = "filter (\<lambda>c. ?Q (get_prop c ''id'')) (getTasks s)"
  let ?once = "filter validateTask (map (revive \<circ> json) ?F)"
  from 1 have s1: "s1 = setItem TASKS (JArr ?F) s" by (simp add: deleteTask_def2)
  have o: "\<forall>x \<in> set ?F. (\<exists>j. is_json j \<and> \<not> throws j \<and> x = revive j)"
    using getTasks_read_from_json [OF j] by auto
  have ids: "\<forall>x \<in> set ?F. is_string (get_prop x ''id'') \<and> ?Q (get_prop x ''id'')"
    by (auto dest!: getTasks_valid simp: validateTask_def)
  from rewrite_twice [where v = validateTask and Q = ?Q, OF o ids]
  have nt: "\<forall>y \<in> set ?once. \<not> throws (json y)"
    and keep: "filter (\<lambda>c. ?Q (get_prop c ''id'')) ?once = ?once"
    and again: "filter validateTask (map (revive \<circ> json) ?once) = ?once"
    by blast+
  from reread_stable(1) [OF o] have g1: "getTasks s1 = ?once"
    unfolding s1 by (subst getTasks_setItem) auto
  from 2 have s2: "s2 = setItem TASKS (JArr ?once) s1"
    unfolding deleteTask_def2 g1 keep by simp
  have "getTasks s2 = filter validateTask (map (revive \<circ> json) ?once)"
    unfolding s2 using nt by (subst getTasks_setItem) (simp only: if_not_P bex_simps not_not)
  with again g1 have same: "getTasks s2 = getTasks s1" by simp
  from keep have "\<forall>y \<in> set ?once. get_prop y ''id'' \<noteq> JStr ident"
    by (simp only: filter_id_conv)
  then have "JStr ident \<notin> set (ids (getTasks s1))"
    unfolding g1 by (rule ids_absent)
  with same show ?thesis by simp
qed

lemma deleteChat_absent:
  assumes "JStr ident \<notin> set (ids (getChats s))"
  shows "deleteChat ident s = Inr (setItem CHATS (JArr (getChats s)) s)"
proof -
  have "filter (\<lambda>c. get_prop c ''id'' \<noteq> JStr ident) (getChats s) = getChats s"
    using assms by (intro filter_True) (force simp: ids_def)
  then show ?thesis by (simp add: deleteChat_def2)
qed

lemma deleteTask_absent:
  assumes "JStr ident \<notin> set (ids (getTasks s))"
  shows "deleteTask ident s = Inr (setItem TASKS (JArr (getTasks s)) s)"
proof -
  have "filter (\<lambda>c. get_prop c ''id'' \<noteq> JStr ident) (getTasks s) = getTasks s"
    using assms by (intro filter_True) (force simp: ids_def)
  then show ?thesis by (simp add: deleteTask_def2)
qed


section \<open>Exporting and importing\<close>

text \<open>
  What one serialization and one read do to a valid record whose dates are valid: the
  record stays valid, and a conversation keeps its number of messages.
\<close>

lemma valid_date_round_trip: "valid_date v \<Longrightarrow> revived (json v) = v"
  by (auto simp: valid_date_def revived_def toISOString_nonempty Date_parse_toISOString
      split: jsval.splits option.splits)

lemma is_boolean_json: "is_boolean v \<Longrightarrow> json v = v"
  by (cases v) auto

lemma is_string_defined: "is_string v \<Longrightarrow> v \<noteq> JUndefined"
  by auto

lemma is_boolean_defined: "is_boolean v \<Longrightarrow> v \<noteq> JUndefined"
  by auto

lemma valid_date_defined: "valid_date v \<Longrightarrow> v \<noteq> JUndefined"
  by (auto simp: valid_date_def)

lemma json_obj_is_obj: "\<exists>gs. json (JObj fs) = JObj gs"
  by simp

lemma message_round_trip:
  assumes v: "validateMessage m" and d: "valid_date (get_prop m ''timestamp'')"
  shows "validateMessage (reviveDate ''timestamp'' (json m))"
proof -
  from validateMessage_obj [OF v] obtain fs where fs: "m = JObj fs" by auto
  let ?r = "reviveDate ''timestamp'' (json m)"
  have str: "get_prop ?r k = get_prop m k" if "is_string (get_prop m k)" "k \<noteq> ''timestamp''" for k
    using that by (simp add: get_prop_reviveDate get_prop_json is_string_defined is_string_json)
  have "get_prop ?r ''isUser'' = get_prop m ''isUser''"
    using v by (simp add: get_prop_reviveDate get_prop_json is_boolean_defined is_boolean_json
        validateMessage_def)
  moreover have "get_prop ?r ''timestamp'' = get_prop m ''timestamp''"
    using d by (simp add: get_prop_reviveDate get_prop_json valid_date_defined valid_date_round_trip)
  moreover have "\<exists>gs. ?r = JObj gs"
    unfolding reviveDate_obj fs by simp
  ultimately show ?thesis
    using v str [of "''id''"] str [of "''text''"] str [of "''chatId''"]
    by (auto simp: validateMessage_def)
qed

lemma chat_round_trip:
  assumes v: "validateChat c" and d: "chat_dates_valid c"
  shows "validateChat (revive (json c))" and "message_count (revive (json c)) = message_count c"
proof -
  from validateChat_obj [OF v] obtain fs where fs: "c = JObj fs" by auto
  note nt = validateChat_json_no_throw [OF v]
  let ?r = "revive (json c)"
  from v obtain msgs where msgs: "get_prop c ''messages'' = JArr msgs"
    and mv: "list_all validateMessage msgs"
    by (auto simp: validateChat_def split: jsval.splits)
  have str: "get_prop ?r k = get_prop c k"
    if "is_string (get_prop c k)" "k \<notin> date_fields" "k \<noteq> ''messages''" for k
    using that by (simp add: get_prop_revive [OF nt] get_prop_json is_string_defined is_string_json)
  have t: "get_prop ?r ''lastMessageTime'' = get_prop c ''lastMessageTime''"
    using d by (simp add: get_prop_revive [OF nt] get_prop_json valid_date_defined
        valid_date_round_trip chat_dates_valid_def date_fields_def)
  have m: "get_prop ?r ''messages'' = JArr (map (reviveDate ''timestamp'' \<circ> json) msgs)"
    by (simp add: get_prop_revive [OF nt] get_prop_json msgs date_fields_def)
  from d msgs have md: "list_all (\<lambda>m. valid_date (get_prop m ''timestamp'')) msgs"
    by (simp add: chat_dates_valid_def)
  have mv': "list_all validateMessage (map (reviveDate ''timestamp'' \<circ> json) msgs)"
    using mv md by (auto simp: list_all_iff intro: message_round_trip)
  have "\<exists>gs. json c = JObj gs"
    by (simp add: fs)
  then have o: "\<exists>gs. ?r = JObj gs"
    by (simp only: revive_obj [OF nt])
  from v t have "is_date (get_prop ?r ''lastMessageTime'')"
    by (simp add: validateChat_def)
  with o m mv' v str [of "''id''"] str [of "''title''"] str [of "''lastMessage''"]
  show "validateChat ?r"
    by (auto simp: validateChat_def date_fields_def)
  show "message_count ?r = message_count c"
    by (simp add: message_count_def m msgs)
qed

lemma map_of_json_undefined:
  "distinct (map fst fs) \<Longrightarrow> map_of fs k = Some JUndefined \<Longrightarrow>
   map_of (map (\<lambda>(k, v). (k, json v)) (filter (\<lambda>(k, v). v \<noteq> JUndefined) fs)) k = None"
  by (induction fs) (auto simp: map_of_eq_None_iff image_iff split: if_splits)

lemma map_of_json_absent:
  "map_of fs k = None \<Longrightarrow>
   map_of (map (\<lambda>(k, v). (k, json v)) (filter (\<lambda>(k, v). v \<noteq> JUndefined) fs)) k = None"
  by (induction fs) (auto split: if_splits)

lemma get_prop_json_undefined:
  assumes "distinct (map fst fs)" and "get_prop (JObj fs) k = JUndefined"
  shows "get_prop (json (JObj fs)) k = JUndefined"
  using assms map_of_json_undefined [of fs k] map_of_json_absent [of fs k]
  by (cases "map_of fs k") simp_all

lemma task_round_trip:
  assumes v: "validateTask t" and d: "task_dates_valid t"
    and fs: "t = JObj fs" and dk: "distinct (map fst fs)" and nt: "\<not> throws (json t)"
  shows "validateTask (revive (json t))"
proof -
  let ?r = "revive (json t)"
  have str: "get_prop ?r k = get_prop t k"
    if "is_string (get_prop t k)" "k \<notin> date_fields" "k \<noteq> ''messages''" for k
    using that by (simp add: get_prop_revive [OF nt] get_prop_json is_string_defined is_string_json)
  have und: "get_prop ?r k = JUndefined"
    if "get_prop t k = JUndefined" "k \<notin> date_fields" "k \<noteq> ''messages''" for k
  proof -
    from that(1) have "get_prop (json t) k = JUndefined"
      unfolding fs by (rule get_prop_json_undefined [OF dk])
    with that show ?thesis
      by (simp add: get_prop_revive [OF nt])
  qed
  have opt: "get_prop ?r k = JUndefined \<or> is_string (get_prop ?r k)"
    if "get_prop t k = JUndefined \<or> is_string (get_prop t k)"
       "k \<notin> date_fields" "k \<noteq> ''messages''" for k
    using that str [of k] und [of k] by auto
  have t: "get_prop ?r ''createdAt'' = get_prop t ''createdAt''"
    using d by (simp add: get_prop_revive [OF nt] get_prop_json valid_date_defined
        valid_date_round_trip task_dates_valid_def date_fields_def)
  have c: "get_prop ?r ''completed'' = get_prop t ''completed''"
    using v by (simp add: get_prop_revive [OF nt] get_prop_json is_boolean_defined
        is_boolean_json validateTask_def date_fields_def)
  have "\<exists>gs. json t = JObj gs"
    by (simp add: fs)
  then have o: "\<exists>gs. ?r = JObj gs"
    by (simp only: revive_obj [OF nt])
  from o t c v str [of "''id''"] str [of "''title''"]
    opt [of "''description''"] opt [of "''fromChatId''"]
  show ?thesis
    by (auto simp: validateTask_def date_fields_def)
qed

lemma validateUserProfile_truthy: "validateUserProfile p \<Longrightarrow> truthy p \<and> p \<noteq> JUndefined"
  by (cases p) (auto simp: validateUserProfile_def)

lemma getProfile_with_profile:
  assumes "validateUserProfile (getItem s USER_PROFILE)"
  shows "getProfile s = Some (Inr (getItem s USER_PROFILE), s)"
  unfolding getProfile_def
  by (subst profile_service.simps) (simp add: assms validateUserProfile_truthy)

lemma keys_differ:
  "CHATS \<noteq> TASKS" "CHATS \<noteq> USER_PROFILE" "CHATS \<noteq> APP_SETTINGS"
  "TASKS \<noteq> CHATS" "TASKS \<noteq> USER_PROFILE" "TASKS \<noteq> APP_SETTINGS"
  "USER_PROFILE \<noteq> CHATS" "USER_PROFILE \<noteq> TASKS" "APP_SETTINGS \<noteq> CHATS" "APP_SETTINGS \<noteq> TASKS"
  by (simp_all add: CHATS_def TASKS_def USER_PROFILE_def APP_SETTINGS_def)

lemma getChats_cong: "s CHATS = s' CHATS \<Longrightarrow> getChats s = getChats s'"
  by (simp add: getChats_def getItem_def)

lemma getTasks_cong: "s TASKS = s' TASKS \<Longrightarrow> getTasks s = getTasks s'"
  by (simp add: getTasks_def getItem_def)

lemma getChats_clearData: "getChats (clearData s) = []"
  by (simp add: getChats_def getItem_def clearData_def removeItem_def clearAllChats_def
      clearAllTasks_def keys_differ)

lemma getTasks_clearData: "getTasks (clearData s) = []"
  by (simp add: getTasks_def getItem_def clearData_def removeItem_def clearAllChats_def
      clearAllTasks_def keys_differ)

lemma exportData_with_profile:
  assumes "validateUserProfile (getItem s USER_PROFILE)"
  shows "exportData now s =
     Some (Inr (Some (JObj [(''exportDate'', JStr (toISOString now)),
                            (''version'', JStr ''1.0.0''),
                            (''data'', JObj [(''chats'', JArr (map json (getChats s))),
                                             (''tasks'', JArr (map json (getTasks s))),
                                             (''profile'', json (getItem s USER_PROFILE))])])), s)"
  using validateUserProfile_truthy [OF assms]
  by (simp add: exportData_def getProfile_with_profile [OF assms])

lemma importData_document:
  "importData (Some (JObj [(''exportDate'', d), (''version'', v),
                           (''data'', JObj [(''chats'', JArr cs), (''tasks'', JArr ts),
                                            (''profile'', q)])])) s =
     Inr (if truthy q \<and> validateUserProfile q
          then setItem USER_PROFILE q (setItem TASKS (JArr ts) (setItem CHATS (JArr cs) s))
          else setItem TASKS (JArr ts) (setItem CHATS (JArr cs) s))"
  by (simp add: importData_def Let_def)

lemma getChats_imported:
  "getChats (if b then setItem USER_PROFILE q (setItem TASKS (JArr ts) (setItem CHATS (JArr cs) s))
             else setItem TASKS (JArr ts) (setItem CHATS (JArr cs) s)) =
   getChats (setItem CHATS (JArr cs) s)"
  by (rule getChats_cong) (simp add: setItem_def keys_differ)

lemma getTasks_imported:
  "getTasks (if b then setItem USER_PROFILE q (setItem TASKS (JArr ts) (setItem CHATS (JArr cs) s))
             else setItem TASKS (JArr ts) (setItem CHATS (JArr cs) s)) =
   getTasks (setItem TASKS (JArr ts) s)"
  by (rule getTasks_cong) (simp add: setItem_def keys_differ)

lemma getTasks_shape:
  assumes j: "is_json (getItem s TASKS)" and t: "t \<in> set (getTasks s)"
  shows "\<exists>fs. t = JObj fs \<and> distinct (map fst fs)" and "\<not> throws (json t)"
proof -
  from getTasks_read_from_json [OF j t] obtain x
    where x: "is_json x" "\<not> throws x" "t = revive x" by auto
  from getTasks_valid [OF t] have "\<exists>fs. t = JObj fs" by (rule validateTask_obj)
  with x obtain gs where gs: "x = JObj gs"
    by (auto simp: revive_obj)
  with x have d: "distinct (map fst gs)" by simp
  from revive_entries [OF d] x gs have "t = JObj (map_values revive_value gs)" by simp
  with d show "\<exists>fs. t = JObj fs \<and> distinct (map fst fs)"
    by (auto simp: map_values_keys)
  from x show "\<not> throws (json t)"
    by (simp add: revive_json_stable(1))
qed

lemma chats_read_again:
  assumes "\<forall>c \<in> set cs. validateChat c \<and> chat_dates_valid c"
  shows "getChats (setItem CHATS (JArr (map json cs)) s) = map (revive \<circ> json) cs"
proof -
  have nt: "\<forall>c \<in> set cs. \<not> throws (json c)"
    using assms validateChat_json_no_throw by blast
  have "filter validateChat (map (revive \<circ> json) cs) = map (revive \<circ> json) cs"
    using assms by (intro filter_True) (auto intro: chat_round_trip(1))
  with nt show ?thesis
    by (simp add: getChats_setItem o_def)
qed

lemma tasks_read_again:
  assumes "\<forall>t \<in> set ts. validateTask t \<and> task_dates_valid t \<and>
             (\<exists>fs. t = JObj fs \<and> distinct (map fst fs)) \<and> \<not> throws (json t)"
  shows "getTasks (setItem TASKS (JArr (map json ts)) s) = map (revive \<circ> json) ts"
proof -
  have "filter validateTask (map (revive \<circ> json) ts) = map (revive \<circ> json) ts"
    using assms by (intro filter_True) (auto intro: task_round_trip)
  with assms show ?thesis
    by (simp add: getTasks_setItem o_def)
qed


section \<open>Sanitization\<close>

text \<open>
  C2. \<^verbatim>\<open>sanitizeStorageData\<close> is claimed to return the elements that pass the validator
  and never to raise, whatever the elements are, \<^verbatim>\<open>null\<close> included. The callback reads
  \<^verbatim>\<open>item.timestamp\<close> before the validator has seen the item: on an array that holds a
  stored conversation and a \<^verbatim>\<open>null\<close> it throws a TypeError, and \<^verbatim>\<open>getChats\<close>, which
  catches it, then answers the empty list although a valid conversation is stored.
\<close>

theorem sanitizeStorageData_null_element_throws:
  "sanitizeStorageData (JArr [chat_a, JNull]) validateChat = Inl TypeError \<and>
   getChats [CHATS \<mapsto> JArr [chat_a, JNull]] = [] \<and>
   length (getChats [CHATS \<mapsto> JArr [chat_a]]) = 1"
  by code_simp

section \<open>The default profile\<close>

lemma profile_service_Some_has_profile:
  assumes "profile_service c s = Some y"
  shows "truthy (getItem s USER_PROFILE) \<and> validateUserProfile (getItem s USER_PROFILE)"
proof (rule profile_service.raw_induct
    [where P = "\<lambda>c s y. truthy (getItem s USER_PROFILE) \<and>
                          validateUserProfile (getItem s USER_PROFILE)", OF _ assms],
    goal_cases)
  case (1 f c s y)
  from 1(2) 1(1) [of "UpdateProfile createDefaultUserProfile" s] 1(1) [of GetProfile s]
  show ?case
    by (cases c) (auto simp: Let_def bind_eq_Some_conv split: if_splits)
qed

lemma getProfile_without_profile:
  assumes "\<not> (truthy (getItem s USER_PROFILE) \<and> validateUserProfile (getItem s USER_PROFILE))"
  shows "getProfile s = None"
proof (cases "getProfile s")
  case (Some y)
  then show ?thesis
    using profile_service_Some_has_profile [of GetProfile s y] assms
    by (simp add: getProfile_def)
qed simp

text \<open>
  C9. With nothing stored under the profile key, \<^verbatim>\<open>getProfile\<close> is claimed to return the
  default profile and to persist it. It calls \<^verbatim>\<open>updateProfile\<close> to persist the default,
  which first calls \<^verbatim>\<open>getProfile\<close>, which still finds nothing stored: the call never
  returns, and nothing is written.
\<close>

theorem getProfile_first_call_never_returns:
  "getProfile Map.empty = None"
  by (rule getProfile_without_profile) (simp add: getItem_def)





section \<open>Task statistics\<close>

lemma is_boolean_truthy: "is_boolean v \<Longrightarrow> truthy v = (v = JBool True)"
  by (cases v) auto

lemma completed_filter:
  "filter (\<lambda>task. truthy (get_prop task ''completed'')) (getTasks s) =
   filter (\<lambda>task. get_prop task ''completed'' = JBool True) (getTasks s)"
  by (rule filter_cong) (auto dest!: getTasks_valid simp: validateTask_def is_boolean_truthy)

lemma Math_round_close: "\<bar>of_int (Math_round (x * 100)) / 100 - x\<bar> \<le> 1 / 200"
proof -
  have "of_int \<lfloor>x * 100 + 1 / 2\<rfloor> \<le> x * 100 + 1 / 2" by (rule of_int_floor_le)
  moreover have "x * 100 + 1 / 2 < of_int \<lfloor>x * 100 + 1 / 2\<rfloor> + 1" by linarith
  ultimately have "\<bar>of_int \<lfloor>x * 100 + 1 / 2\<rfloor> - x * 100\<bar> \<le> 1 / 2" by linarith
  then show ?thesis
    unfolding Math_round_def by (simp add: field_simps abs_if split: if_splits)
qed

lemma getTaskStats_rate:
  "completionRate (getTaskStats s) =
     of_int (Math_round ((if total (getTaskStats s) = 0 then 0
        else of_int (completed (getTaskStats s)) / of_int (total (getTaskStats s)) * 100) * 100)) / 100"
  by (simp add: getTaskStats_def Let_def)



section \<open>Adding messages\<close>

lemma addMessage_persisted:
  assumes "addMessage newId chatId m s = Inr (message, s')"
  shows "\<exists>r msgs. persisted_by_id CHATS chatId s' = Some r \<and>
           get_prop r ''messages'' = JArr msgs \<and> msgs \<noteq> [] \<and>
           get_prop (last msgs) ''id'' = JStr newId \<and>
           get_prop (last msgs) ''text'' = JStr (msg_text m) \<and>
           get_prop (last msgs) ''timestamp'' = json (JDate (msg_timestamp m)) \<and>
           get_prop r ''lastMessage'' = JStr (msg_text m) \<and>
           get_prop r ''lastMessageTime'' = json (JDate (msg_timestamp m)) \<and>
           \<not> throws r \<and>
           (validateChat (revive r) \<longrightarrow> getChat s' chatId = revive r)"
proof -
  let ?chat = "getChat s chatId"
  from assms have t: "truthy ?chat"
    by (auto simp: addMessage_def Let_def split: if_splits)
  from getChat_truthy [OF t] have mem: "?chat \<in> set (getChats s)"
    and cid: "get_prop ?chat ''id'' = JStr chatId" by auto
  from getChats_valid [OF mem] obtain fs old where fs: "?chat = JObj fs"
    and old: "get_prop ?chat ''messages'' = JArr old" "list_all validateMessage old"
    by (cases "getChat s chatId"; cases "get_prop (getChat s chatId) ''messages''")
       (auto simp: validateChat_def)
  define newMessage where "newMessage = JObj [(''id'', JStr newId),
                                (''chatId'', JStr chatId),
                                (''text'', JStr (msg_text m)),
                                (''isUser'', JBool (msg_isUser m)),
                                (''timestamp'', JDate (msg_timestamp m))]"
  define chat3 where "chat3 =
    set_prop (set_prop (set_prop ?chat ''messages'' (JArr (old @ [newMessage])))
                ''lastMessage'' (JStr (msg_text m)))
      ''lastMessageTime'' (JDate (msg_timestamp m))"
  from assms t old(1) have u: "updateChat chat3 s = Inr s'"
    by (auto simp: addMessage_def Let_def chat3_def newMessage_def split: sum.splits)
  have c3: "get_prop chat3 ''id'' = JStr chatId"
    "get_prop chat3 ''messages'' = JArr (old @ [newMessage])"
    "get_prop chat3 ''lastMessage'' = JStr (msg_text m)"
    "get_prop chat3 ''lastMessageTime'' = JDate (msg_timestamp m)"
    using cid by (simp_all add: chat3_def fs update_conv')
  have obj: "\<exists>gs. json chat3 = JObj gs"
    by (simp add: chat3_def fs)
  have j: "get_prop (json chat3) ''messages'' = JArr (map json old @ [json newMessage])"
    "get_prop (json chat3) ''lastMessage'' = JStr (msg_text m)"
    "get_prop (json chat3) ''lastMessageTime'' = json (JDate (msg_timestamp m))"
    by (simp_all add: get_prop_json c3)
  have l: "get_prop (json newMessage) ''id'' = JStr newId"
    "get_prop (json newMessage) ''text'' = JStr (msg_text m)"
    "get_prop (json newMessage) ''timestamp'' = json (JDate (msg_timestamp m))"
    "\<not> nullish (json newMessage)"
    by (simp_all add: newMessage_def)
  have "\<not> list_ex nullish (map json old @ [json newMessage])"
    using old(2) l(4) by (auto simp: list_ex_iff list_all_iff validateMessage_json_not_nullish)
  with obj j(1) have nt: "\<not> throws (json chat3)"
    by (auto simp: throws_def)
  note p = updateChat_persisted [OF u c3(1)]
  from p(1) p(2) [OF nt] j l nt show ?thesis by simp
qed

lemma addMessages_snoc:
  "addMessages chatId (calls @ [call]) s = Inr s' \<Longrightarrow>
   \<exists>s'' message. addMessages chatId calls s = Inr s'' \<and>
                 addMessage (fst call) chatId (snd call) s'' = Inr (message, s')"
  by (induction calls arbitrary: s) (auto split: sum.splits)

text \<open>
  C1. After one or more successful \<^verbatim>\<open>addMessage\<close> calls on a conversation that is in the
  collection, the conversation persisted under its identifier ends its message sequence
  with the message of the last call, and its \<^verbatim>\<open>lastMessage\<close> and \<^verbatim>\<open>lastMessageTime\<close>
  are the text and the timestamp of that message; and when that record is a valid
  conversation as it is read back, \<^verbatim>\<open>getChat\<close> returns it with the same agreement.
\<close>

theorem addMessage_mirrors_last_message:
  assumes "truthy (getChat s chatId)" and "calls \<noteq> []"
    and "addMessages chatId calls s = Inr s'"
  shows "\<exists>r msgs. persisted_by_id CHATS chatId s' = Some r \<and>
           get_prop r ''messages'' = JArr msgs \<and> msgs \<noteq> [] \<and>
           get_prop r ''lastMessage'' = get_prop (last msgs) ''text'' \<and>
           get_prop r ''lastMessageTime'' = get_prop (last msgs) ''timestamp'' \<and>
           get_prop (last msgs) ''id'' = JStr (fst (last calls)) \<and>
           get_prop (last msgs) ''text'' = JStr (msg_text (snd (last calls))) \<and>
           get_prop (last msgs) ''timestamp'' = json (JDate (msg_timestamp (snd (last calls)))) \<and>
           (validateChat (revive r) \<longrightarrow>
              (\<exists>msgs'. getChat s' chatId = revive r \<and>
                 get_prop (getChat s' chatId) ''messages'' = JArr msgs' \<and> msgs' \<noteq> [] \<and>
                 get_prop (getChat s' chatId) ''lastMessage'' = get_prop (last msgs') ''text'' \<and>
                 get_prop (getChat s' chatId) ''lastMessageTime'' =
                   get_prop (last msgs') ''timestamp'' \<and>
                 get_prop (last msgs') ''text'' = JStr (msg_text (snd (last calls)))))"
proof -
  from assms(2) obtain front c where calls: "calls = front @ [c]"
    by (metis append_butlast_last_id)
  from addMessages_snoc [OF assms(3) [unfolded calls]] obtain s'' message where
    "addMessage (fst c) chatId (snd c) s'' = Inr (message, s')"
    by auto
  from addMessage_persisted [OF this] obtain r msgs where r:
    "persisted_by_id CHATS chatId s' = Some r"
    "get_prop r ''messages'' = JArr msgs" "msgs \<noteq> []"
    "get_prop (last msgs) ''id'' = JStr (fst c)"
    "get_prop (last msgs) ''text'' = JStr (msg_text (snd c))"
    "get_prop (last msgs) ''timestamp'' = json (JDate (msg_timestamp (snd c)))"
    "get_prop r ''lastMessage'' = JStr (msg_text (snd c))"
    "get_prop r ''lastMessageTime'' = json (JDate (msg_timestamp (snd c)))"
    "\<not> throws r"
    "validateChat (revive r) \<longrightarrow> getChat s' chatId = revive r"
    by blast
  let ?revived_msgs = "map (reviveDate ''timestamp'') msgs"
  have rb: "get_prop (revive r) ''messages'' = JArr ?revived_msgs"
    "get_prop (revive r) ''lastMessage'' = JStr (msg_text (snd c))"
    "get_prop (revive r) ''lastMessageTime'' = revived (json (JDate (msg_timestamp (snd c))))"
    by (simp_all add: get_prop_revive [OF r(9)] date_fields_def r)
  have lst: "last ?revived_msgs = reviveDate ''timestamp'' (last msgs)"
    using r(3) by (simp add: last_map)
  have "get_prop (last ?revived_msgs) ''text'' = JStr (msg_text (snd c))"
    "get_prop (last ?revived_msgs) ''timestamp'' = revived (json (JDate (msg_timestamp (snd c))))"
    by (simp_all add: lst get_prop_reviveDate r)
  with rb r(3) have "\<exists>msgs'. get_prop (revive r) ''messages'' = JArr msgs' \<and> msgs' \<noteq> [] \<and>
      get_prop (revive r) ''lastMessage'' = get_prop (last msgs') ''text'' \<and>
      get_prop (revive r) ''lastMessageTime'' = get_prop (last msgs') ''timestamp'' \<and>
      get_prop (last msgs') ''text'' = JStr (msg_text (snd c))"
    by simp
  with r show ?thesis
    unfolding calls by auto
qed

lemma getChat_store_ab: "getChat store_ab ''1'' = chat_a_read"
  by (simp add: getChat_eq getChats_store_ab chat_a_read_def chat_b_read_def)

lemma updateChat_store_ab: "updateChat chat_a_1 store_ab = Inr store_ab_1"
  by (simp add: updateChat_eq getChats_store_ab chat_a_read_def chat_b_read_def chat_a_1_def
                store_ab_1_def)

lemma addMessage_store_ab: "addMessage ''m1'' ''1'' hello store_ab = Inr (message_1, store_ab_1)"
proof -
  have "get_prop chat_a_read ''messages'' = JArr []" "truthy chat_a_read"
    by (simp_all add: chat_a_read_def)
  moreover have "set_prop (set_prop (set_prop chat_a_read ''messages'' (JArr [message_1]))
                    ''lastMessage'' (JStr ''hello'')) ''lastMessageTime'' (JDate (Some noon))
                 = chat_a_1"
    by (simp add: chat_a_read_def chat_a_1_def)
  ultimately show ?thesis
    by (simp add: addMessage_def getChat_store_ab hello_def message_1_def [symmetric]
                  updateChat_store_ab)
qed

lemma getChats_store_ab_1: "getChats store_ab_1 = [chat_a_1, chat_b_read]"
  by (simp add: store_ab_1_def getChats_setItem eval_simps chat_a_1_def chat_b_read_def
                message_1_def)

lemma getChat_store_ab_1: "getChat store_ab_1 ''1'' = chat_a_1"
  by (simp add: getChat_eq getChats_store_ab_1 chat_a_1_def)

lemma updateChat_store_ab_1: "updateChat chat_a_2 store_ab_1 = Inr store_ab_2"
  by (simp add: updateChat_eq getChats_store_ab_1 chat_a_1_def chat_b_read_def chat_a_2_def
                store_ab_2_def)

lemma addMessage_store_ab_1:
  "addMessage ''m2'' ''1'' there store_ab_1 = Inr (message_2, store_ab_2)"
proof -
  have "get_prop chat_a_1 ''messages'' = JArr [message_1]" "truthy chat_a_1"
    by (simp_all add: chat_a_1_def)
  moreover have "set_prop (set_prop (set_prop chat_a_1 ''messages'' (JArr [message_1, message_2]))
                    ''lastMessage'' (JStr ''there'')) ''lastMessageTime'' (JDate (Some noon))
                 = chat_a_2"
    by (simp add: chat_a_1_def chat_a_2_def)
  ultimately show ?thesis
    by (simp add: addMessage_def getChat_store_ab_1 there_def message_2_def [symmetric]
                  updateChat_store_ab_1)
qed

theorem addMessage_mirrors_last_message_witness:
  "truthy (getChat store_ab ''1'') \<and>
   addMessages ''1'' [(''m1'', hello), (''m2'', there)] store_ab = Inr store_ab_2 \<and>
   (\<exists>r msgs. persisted_by_id CHATS ''1'' store_ab_2 = Some r \<and>
      get_prop r ''messages'' = JArr msgs \<and>
      get_prop r ''lastMessage'' = get_prop (last msgs) ''text'' \<and>
      get_prop r ''lastMessageTime'' = get_prop (last msgs) ''timestamp'' \<and>
      get_prop (last msgs) ''text'' = JStr ''there'')"
proof -
  have h1: "truthy (getChat store_ab ''1'')"
    by (simp add: getChat_store_ab chat_a_read_def)
  have h3: "addMessages ''1'' [(''m1'', hello), (''m2'', there)] store_ab = Inr store_ab_2"
    by (simp add: addMessage_store_ab addMessage_store_ab_1)
  have t: "msg_text there = ''there''"
    by (simp add: there_def)
  from addMessage_mirrors_last_message [OF h1 _ h3] t h1 h3 show ?thesis
    by auto
qed

section \<open>Creating a conversation\<close>


lemma getChats_empty: "getChats Map.empty = []"
  by (simp add: getChats_def getItem_def)

section \<open>Toggling a task\<close>

lemma toggle_step:
  assumes d: "distinct (ids (getTasks s))"
    and t: "toggleTaskCompletion ident s = Inr s1"
  shows "\<exists>b r. get_prop (getTask s ident) ''completed'' = JBool b \<and>
           persisted_by_id TASKS ident s1 = Some r \<and>
           get_prop r ''completed'' = JBool (\<not> b) \<and>
           (truthy (getTask s1 ident) \<longrightarrow>
              get_prop (getTask s1 ident) ''completed'' = JBool (\<not> b)) \<and>
           distinct (ids (getTasks s1))"
proof -
  let ?x = "getTask s ident"
  let ?ts = "getTasks s"
  from t have tr: "truthy ?x"
    by (auto simp: toggleTaskCompletion_def Let_def split: if_splits)
  from getTask_truthy [OF tr] have mem: "?x \<in> set ?ts" and xid: "get_prop ?x ''id'' = JStr ident"
    by auto
  from getTasks_valid [OF mem] obtain fs b where fs: "?x = JObj fs"
    and b: "get_prop ?x ''completed'' = JBool b"
    by (cases "getTask s ident"; cases "get_prop (getTask s ident) ''completed''")
       (auto simp: validateTask_def)
  define x1 where "x1 = set_prop ?x ''completed'' (JBool (\<not> b))"
  from t tr b have u: "updateTask x1 s = Inr s1"
    by (simp add: toggleTaskCompletion_def Let_def x1_def)
  have x1p: "get_prop x1 ''id'' = JStr ident" "get_prop x1 ''completed'' = JBool (\<not> b)"
    using xid by (simp_all add: x1_def fs update_conv')
  have n: "\<not> nullish x1" by (simp add: x1_def fs)
  from updateTask_cases [OF n, of s] u x1p(1) obtain i where i: "i < length ?ts"
    "get_prop (?ts ! i) ''id'' = JStr ident"
    "s1 = setItem TASKS (JArr (?ts[i := x1])) s"
    by auto
  let ?xs = "?ts[i := x1]"
  have idx: "ids ?xs = ids ?ts"
    using i(1) i(2) x1p(1) by (simp add: ids_def map_update list_update_same_conv)
  have p: "persisted_by_id TASKS ident s1 = Some (json x1)"
    by (rule updateTask_persisted [OF u x1p(1)])
  have pc: "get_prop (json x1) ''completed'' = JBool (\<not> b)"
    by (simp add: get_prop_json x1p(2))
  have strs: "is_string (get_prop e ''id'')" if "e \<in> set ?xs" for e
    using that x1p(1) set_update_subset_insert [of ?ts i x1]
    by (auto dest!: getTasks_valid simp: validateTask_def)
  show ?thesis
  proof (cases "\<exists>x \<in> set ?xs. throws (json x)")
    case True
    then have "getTasks s1 = []"
      by (simp add: i(3) getTasks_setItem)
    then have "\<not> truthy (getTask s1 ident)" "distinct (ids (getTasks s1))"
      by (simp_all add: getTask_eq ids_def)
    with b p pc show ?thesis by blast
  next
    case False
    then have g1: "getTasks s1 = filter validateTask (map (revive \<circ> json) ?xs)"
      by (simp add: i(3) getTasks_setItem)
    have idf: "get_prop ((revive \<circ> json) e) ''id'' = get_prop e ''id''" if "e \<in> set ?xs" for e
      using that False strs by (simp add: id_revive_json)
    then have "ids (map (revive \<circ> json) ?xs) = ids ?xs"
      by (simp add: ids_def)
    with idx d have dm: "distinct (map (\<lambda>x. get_prop x ''id'') (map (revive \<circ> json) ?xs))"
      by (simp add: ids_def)
    have d1: "distinct (ids (getTasks s1))"
      unfolding g1 ids_def by (rule distinct_map_filter [OF dm])
    have obs: "get_prop (getTask s1 ident) ''completed'' = JBool (\<not> b)"
      if tr1: "truthy (getTask s1 ident)"
    proof -
      from getTask_truthy [OF tr1] have "getTask s1 ident \<in> set (getTasks s1)"
        and yid: "get_prop (getTask s1 ident) ''id'' = JStr ident" by auto
      then obtain e where e: "e \<in> set ?xs" "getTask s1 ident = (revive \<circ> json) e"
        by (auto simp: g1)
      with idf yid have eid: "get_prop e ''id'' = JStr ident" by simp
      from e(1) obtain k where k: "k < length ?xs" "e = ?xs ! k"
        by (auto simp: in_set_conv_nth)
      have "k = i"
      proof (rule ccontr)
        assume "k \<noteq> i"
        with k eid have "ids ?ts ! k = ids ?ts ! i"
          using i(1) i(2) by (simp add: ids_def)
        with d k(1) i(1) \<open>k \<noteq> i\<close> show False
          by (simp add: distinct_conv_nth ids_def)
      qed
      with k i(1) have "e = x1" by simp
      moreover have "\<not> throws (json x1)"
        using False i(1) by (auto simp: set_conv_nth intro: exI [of _ i])
      ultimately show ?thesis
        using e(2) pc by (simp add: get_prop_revive date_fields_def)
    qed
    from b p pc obs d1 show ?thesis by blast
  qed
qed


lemma getTask_store_tasks: "getTask store_tasks ''t1'' = task_1_read"
  by (simp add: getTask_eq getTasks_store_tasks task_1_read_def)

lemma toggle_store_tasks: "toggleTaskCompletion ''t1'' store_tasks = Inr toggled_once"
proof -
  have "set_prop task_1_read ''completed'' (JBool (\<not> truthy (get_prop task_1_read ''completed'')))
        = task_1_done" "truthy task_1_read"
    by (simp_all add: task_1_read_def task_1_done_def)
  moreover have "updateTask task_1_done store_tasks = Inr toggled_once"
    by (simp add: updateTask_eq getTasks_store_tasks task_1_read_def task_2_read_def
                  task_3_read_def task_1_done_def toggled_once_def)
  ultimately show ?thesis
    by (simp add: toggleTaskCompletion_def getTask_store_tasks)
qed

lemma getTasks_toggled_once: "getTasks toggled_once = [task_1_done, task_2_read, task_3_read]"
  by (simp add: toggled_once_def getTasks_setItem eval_simps task_1_done_def task_2_read_def
                task_3_read_def)

lemma getTask_toggled_once: "getTask toggled_once ''t1'' = task_1_done"
  by (simp add: getTask_eq getTasks_toggled_once task_1_done_def)

lemma toggle_toggled_once: "toggleTaskCompletion ''t1'' toggled_once = Inr toggled_twice"
proof -
  have "set_prop task_1_done ''completed'' (JBool (\<not> truthy (get_prop task_1_done ''completed'')))
        = task_1_read" "truthy task_1_done"
    by (simp_all add: task_1_read_def task_1_done_def)
  moreover have "updateTask task_1_read toggled_once = Inr toggled_twice"
    by (simp add: updateTask_eq getTasks_toggled_once task_1_read_def task_2_read_def
                  task_3_read_def task_1_done_def toggled_twice_def)
  ultimately show ?thesis
    by (simp add: toggleTaskCompletion_def getTask_toggled_once)
qed


text \<open>
  C8, as stated, fails where two tasks share an identifier and the first has a creation
  time that is no date. The first toggle writes that task back with a \<^verbatim>\<open>null\<close> creation
  time, so that it is dropped at the next read; the second toggle then succeeds on the
  other task, and the task under the identifier is completed although the task toggled
  first was not.
\<close>

lemma getTasks_store_dup: "getTasks store_dup = [task_x_read, task_y_read]"
proof -
  have "store_dup TASKS = Some (JArr [task_x, task_y])"
    by (simp add: store_dup_def)
  from getTasks_stored [of store_dup "[task_x, task_y]", OF this] show ?thesis
    by (simp add: eval_simps task_x_def task_y_def task_x_read_def task_y_read_def)
qed

lemma getTask_store_dup: "getTask store_dup ''d'' = task_x_read"
  by (simp add: getTask_eq getTasks_store_dup task_x_read_def)

lemma toggle_store_dup: "toggleTaskCompletion ''d'' store_dup = Inr dup_once"
proof -
  have "set_prop task_x_read ''completed'' (JBool (\<not> truthy (get_prop task_x_read ''completed'')))
        = task_x_done" "truthy task_x_read"
    by (simp_all add: task_x_read_def task_x_done_def)
  moreover have "updateTask task_x_done store_dup = Inr dup_once"
    by (simp add: updateTask_eq getTasks_store_dup task_x_read_def task_y_read_def
                  task_x_done_def dup_once_def)
  ultimately show ?thesis
    by (simp add: toggleTaskCompletion_def getTask_store_dup)
qed

lemma getTasks_dup_once: "getTasks dup_once = [task_y_read]"
  by (simp add: dup_once_def getTasks_setItem eval_simps task_x_done_def task_y_read_def)

lemma getTask_dup_once: "getTask dup_once ''d'' = task_y_read"
  by (simp add: getTask_eq getTasks_dup_once task_y_read_def)

lemma toggle_dup_once: "toggleTaskCompletion ''d'' dup_once = Inr dup_twice"
proof -
  have "set_prop task_y_read ''completed'' (JBool (\<not> truthy (get_prop task_y_read ''completed'')))
        = task_y_done" "truthy task_y_read"
    by (simp_all add: task_y_read_def task_y_done_def)
  moreover have "updateTask task_y_done dup_once = Inr dup_twice"
    by (simp add: updateTask_eq getTasks_dup_once task_y_read_def task_y_done_def dup_twice_def)
  ultimately show ?thesis
    by (simp add: toggleTaskCompletion_def getTask_dup_once)
qed

lemma getTasks_dup_twice: "getTasks dup_twice = [task_y_done]"
  by (simp add: dup_twice_def getTasks_setItem eval_simps task_y_done_def)

lemma getTask_dup_twice: "getTask dup_twice ''d'' = task_y_done"
  by (simp add: getTask_eq getTasks_dup_twice task_y_done_def)


section \<open>Deleting a record\<close>

lemma getChats_store_all: "getChats store_all = [chat_a_read, chat_b_read]"
proof -
  have "store_all CHATS = Some (JArr [chat_a, chat_b])"
    by (simp add: store_all_def store_ab_def CHATS_def TASKS_def)
  from getChats_stored [of store_all "[chat_a, chat_b]", OF this] show ?thesis
    by (simp add: eval_simps chat_a_def chat_b_def chat_a_read_def chat_b_read_def)
qed

lemma getTasks_store_all: "getTasks store_all = [task_1_read, task_2_read, task_3_read]"
proof -
  have "store_all TASKS = Some (JArr [task_1, task_2, task_3])"
    by (simp add: store_all_def)
  from getTasks_stored [of store_all "[task_1, task_2, task_3]", OF this] show ?thesis
    by (simp add: eval_simps task_1_def task_2_def task_3_def
        task_1_read_def task_2_read_def task_3_read_def)
qed

lemma is_json_store_all:
  "is_json (getItem store_all CHATS)" "is_json (getItem store_all TASKS)"
  by (simp_all add: getItem_def store_all_def store_ab_def CHATS_def TASKS_def
      chat_a_def chat_b_def task_1_def task_2_def task_3_def)

lemma deleteChat_store_all: "deleteChat ''1'' store_all = Inr store_without_1"
  by (simp add: deleteChat_def2 getChats_store_all store_without_1_def
      chat_a_read_def chat_b_read_def)

lemma json_chat_b_read: "json chat_b_read = chat_b"
  by (simp add: chat_b_read_def chat_b_def iso_midnight)

lemma getChats_store_without_1: "getChats store_without_1 = [chat_b_read]"
  unfolding store_without_1_def
  by (subst getChats_setItem)
     (simp add: json_chat_b_read, simp add: eval_simps chat_b_def chat_b_read_def)

lemma absent_in_store_all:
  "JStr ''t1'' \<notin> set (ids (getChats store_all))" "JStr ''1'' \<notin> set (ids (getTasks store_all))"
  by (simp_all add: ids_def getChats_store_all getTasks_store_all chat_a_read_def chat_b_read_def
      task_1_read_def task_2_read_def task_3_read_def)




section \<open>Export, clear, import\<close>


lemma validateUserProfile_default: "validateUserProfile createDefaultUserProfile"
  by (simp add: validateUserProfile_def createDefaultUserProfile_def)

lemma json_default: "json createDefaultUserProfile = createDefaultUserProfile"
  by (simp add: createDefaultUserProfile_def)

lemma profile_store_full: "getItem store_full USER_PROFILE = createDefaultUserProfile"
  by (simp add: store_full_def getItem_setItem_same json_default)

lemma tasks_store_full: "getItem store_full TASKS = JArr [task_1, task_2, task_3]"
  by (simp add: store_full_def getItem_def setItem_def keys_differ iso_midnight
      task_1_def task_2_def task_3_def task_1_read_def task_2_read_def task_3_read_def)

lemma getChats_store_full: "getChats store_full = [chat_a_2, chat_b_read]"
proof -
  have "getChats store_full = getChats (setItem CHATS (JArr [chat_a_2, chat_b_read]) Map.empty)"
    by (rule getChats_cong) (simp add: store_full_def setItem_def keys_differ)
  also have "\<dots> = [chat_a_2, chat_b_read]"
    by (simp add: getChats_setItem eval_simps chat_a_2_def chat_b_read_def
        message_1_def message_2_def)
  finally show ?thesis .
qed

lemma getTasks_store_full: "getTasks store_full = [task_1_read, task_2_read, task_3_read]"
proof -
  have "store_full TASKS = Some (JArr [task_1, task_2, task_3])"
    using tasks_store_full
    by (simp add: getItem_def store_full_def setItem_def keys_differ split: option.splits)
  from getTasks_stored [of store_full "[task_1, task_2, task_3]", OF this] show ?thesis
    by (simp add: eval_simps task_1_def task_2_def task_3_def
        task_1_read_def task_2_read_def task_3_read_def)
qed

lemma dates_store_full:
  "\<forall>c \<in> set (getChats store_full). chat_dates_valid c"
  "\<forall>t \<in> set (getTasks store_full). task_dates_valid t"
  by (simp_all add: getChats_store_full getTasks_store_full chat_dates_valid_def
      task_dates_valid_def valid_date_def valid_noon valid_midnight
      chat_a_2_def chat_b_read_def message_1_def message_2_def
      task_1_read_def task_2_read_def task_3_read_def)

lemma counts_store_full:
  "length (getChats store_full) = 2" "length (getTasks store_full) = 3"
  "map message_count (getChats store_full) = [2, 0]"
  by (simp_all add: getChats_store_full getTasks_store_full message_count_def
      chat_a_2_def chat_b_read_def)


text \<open>
  Without the condition on dates the counts are not restored. A stored conversation whose
  time of last message is a text that is no date is read as a valid conversation (an
  Invalid Date is a \<^verbatim>\<open>Date\<close>); the exported document holds \<^verbatim>\<open>null\<close> in its place, and
  the imported record no longer passes the validator.
\<close>

lemma profile_store_g: "getItem store_g USER_PROFILE = createDefaultUserProfile"
  by (simp add: store_g_def getItem_def)

lemma getChats_store_g: "getChats store_g = [chat_g_read]"
proof -
  have "store_g CHATS = Some (JArr [chat_g])"
    by (simp add: store_g_def keys_differ)
  from getChats_stored [of store_g "[chat_g]", OF this] show ?thesis
    by (simp add: eval_simps chat_g_def chat_g_read_def)
qed

lemma getTasks_store_g: "getTasks store_g = []"
  by (simp add: getTasks_def getItem_def store_g_def keys_differ)

lemma chat_g_read_again:
  "getChats (setItem CHATS (JArr [json chat_g_read]) s) = []"
  by (simp add: getChats_setItem eval_simps chat_g_read_def)



end
